theory Spec2Isabelle
  imports Complex_Main "HOL-Library.Word"
begin

section \<open>The "use cache" wrapper: data model\<close>

text \<open>
  The development embeds the server-side cache wrapper (\<^verbatim>\<open>use-cache-wrapper.ts\<close>):
  the cache key flattening \<^verbatim>\<open>encodeFormData\<close>, the freshness propagation
  \<^verbatim>\<open>propagateCacheLifeAndTags\<close>, the entry generator
  (\<^verbatim>\<open>generateCacheEntry\<close>, \<^verbatim>\<open>generateCacheEntryImpl\<close>, \<^verbatim>\<open>collectResult\<close>),
  \<^verbatim>\<open>cloneCacheEntry\<close>, the discard tests and the body of \<^verbatim>\<open>cache\<close>.

  JavaScript numbers are modelled as reals (no NaN, no rounding); \<^verbatim>\<open>Infinity\<close> appears
  only where the source tests for it. A JavaScript string is the list of its 16-bit code
  units, so that \<^verbatim>\<open>length\<close> counts what \<^verbatim>\<open>.length\<close> counts. Tags and messages,
  whose code units play no role, are plain strings.
\<close>

subsection \<open>Strings and the key encoder\<close>

type_synonym jsstring = "16 word list"

type_synonym tag = string

type_synonym cacheKey = jsstring

definition colon :: "16 word" where
  "colon = 58"

text \<open>One digit of \<^verbatim>\<open>Number.prototype.toString(16)\<close>: \<^verbatim>\<open>0\<close>..\<^verbatim>\<open>9\<close>, then \<^verbatim>\<open>a\<close>..\<^verbatim>\<open>f\<close>.\<close>

definition hexDigit :: "nat \<Rightarrow> 16 word" where
  "hexDigit d = (if d < 10 then of_nat (48 + d) else of_nat (87 + d))"

text \<open>\<^verbatim>\<open>n.toString(16)\<close> for a length \<open>n\<close>: no sign, no leading zero, \<^verbatim>\<open>"0"\<close> for zero.\<close>

fun toString16 :: "nat \<Rightarrow> jsstring" where
  "toString16 n =
     (if n < 16 then [hexDigit n] else toString16 (n div 16) @ [hexDigit (n mod 16)])"

declare toString16.simps [simp del]

text \<open>
  A value of a \<^verbatim>\<open>FormData\<close> entry is a string or a file (blob), the latter read through
  \<^verbatim>\<open>arrayBuffer()\<close> as its bytes.
\<close>

datatype FormDataEntryValue = StringValue jsstring | FileValue "8 word list"

text \<open>
  A \<^verbatim>\<open>Uint16Array\<close> view reads two bytes per element in the byte order of the platform,
  which is a parameter of the model.
\<close>

definition uint16 :: "bool \<Rightarrow> 8 word \<Rightarrow> 8 word \<Rightarrow> 16 word" where
  "uint16 littleEndian b0 b1 =
     (if littleEndian then ucast b0 + 256 * ucast b1 else ucast b1 + 256 * ucast b0)"

definition Uint16Array :: "bool \<Rightarrow> 8 word list \<Rightarrow> nat \<Rightarrow> nat \<Rightarrow> 16 word list" where
  "Uint16Array littleEndian arrayBuffer byteOffset len =
     map (\<lambda>i. uint16 littleEndian (arrayBuffer ! (byteOffset + 2 * i))
                  (arrayBuffer ! (byteOffset + 2 * i + 1))) [0..<len]"

text \<open>
  \<^verbatim>\<open>String.fromCodePoint\<close> on code points below \<open>0x10000\<close> (all that a
  \<^verbatim>\<open>Uint16Array\<close> or a byte can hold) yields one code unit per code point, the code point
  itself, lone surrogates included.
\<close>

definition fromCodePoint :: "16 word list \<Rightarrow> jsstring" where
  "fromCodePoint codePoints = codePoints"

text \<open>The \<^verbatim>\<open>stringValue\<close> computed in the loop body of \<^verbatim>\<open>encodeFormData\<close>.\<close>

definition stringValue :: "bool \<Rightarrow> FormDataEntryValue \<Rightarrow> jsstring" where
  "stringValue littleEndian v =
     (case v of
        StringValue s \<Rightarrow> s
      | FileValue arrayBuffer \<Rightarrow>
          (if length arrayBuffer mod 2 = 0
           then fromCodePoint (Uint16Array littleEndian arrayBuffer 0 (length arrayBuffer div 2))
           else fromCodePoint
                  (Uint16Array littleEndian arrayBuffer 0 ((length arrayBuffer - 1) div 2)) @
                fromCodePoint [ucast (arrayBuffer ! (length arrayBuffer - 1))]))"

definition encodeFormData :: "bool \<Rightarrow> (jsstring \<times> FormDataEntryValue) list \<Rightarrow> jsstring" where
  "encodeFormData littleEndian formData =
     foldl (\<lambda>result (key, v).
              let result1 = result @ (toString16 (length key) @ [colon] @ key);
                  sv = stringValue littleEndian v
              in result1 @ (toString16 (length sv) @ [colon] @ sv))
       [] formData"

text \<open>The two pieces the loop appends for one string: its length in hex, a colon, the string.\<close>

definition field :: "jsstring \<Rightarrow> jsstring" where
  "field s = toString16 (length s) @ [colon] @ s"

fun flatten :: "(jsstring \<times> jsstring) list \<Rightarrow> jsstring" where
  "flatten [] = []"
| "flatten ((k, v) # rest) = field k @ field v @ flatten rest"

subsection \<open>Streams\<close>

datatype jsError = UseCacheTimeoutError | ConfigError string | ThrownValue string

text \<open>
  A stream is described by the chunks it delivers and by how it ends: it closes, it errors,
  or it stays open for ever. \<open>Source\<close> is a stream made outside the wrapper (or by a
  \<^verbatim>\<open>new ReadableStream\<close> whose content is known); \<open>TeeA\<close> and \<open>TeeB\<close> are the two
  branches of \<^verbatim>\<open>tee()\<close>; \<open>Tracked\<close> is the result of \<^verbatim>\<open>createTrackedReadableStream\<close>.
\<close>

datatype terminal = Closed | Errored jsError | Unsettled

datatype stream =
    Source "string list" terminal
  | TeeA stream
  | TeeB stream
  | Tracked stream

fun chunks :: "stream \<Rightarrow> string list" where
  "chunks (Source cs t) = cs"
| "chunks (TeeA s) = chunks s"
| "chunks (TeeB s) = chunks s"
| "chunks (Tracked s) = chunks s"

text \<open>
  A tracked stream forwards every chunk, closes when its source is done, and becomes errored
  when \<^verbatim>\<open>reader.read()\<close> rejects inside \<^verbatim>\<open>pull\<close>.
\<close>

fun ending :: "stream \<Rightarrow> terminal" where
  "ending (Source cs t) = t"
| "ending (TeeA s) = ending s"
| "ending (TeeB s) = ending s"
| "ending (Tracked s) = ending s"

definition tee :: "stream \<Rightarrow> stream \<times> stream" where
  "tee s = (TeeA s, TeeB s)"

text \<open>
  \<^verbatim>\<open>createTrackedReadableStream\<close>: its \<^verbatim>\<open>pull\<close> calls \<^verbatim>\<open>cacheSignal.endRead()\<close> in
  the \<^verbatim>\<open>done\<close> branch only. \<open>endReadsOnDrain\<close> counts the \<^verbatim>\<open>endRead\<close> calls made when a
  consumer reads the stream to its end.
\<close>

definition createTrackedReadableStream :: "stream \<Rightarrow> stream" where
  "createTrackedReadableStream s = Tracked s"

fun endReadsOnDrain :: "stream \<Rightarrow> nat" where
  "endReadsOnDrain (Source cs t) = 0"
| "endReadsOnDrain (TeeA s) = endReadsOnDrain s"
| "endReadsOnDrain (TeeB s) = endReadsOnDrain s"
| "endReadsOnDrain (Tracked s) = endReadsOnDrain s + (if ending s = Closed then 1 else 0)"

subsection \<open>Cache entries\<close>

text \<open>
  \<^verbatim>\<open>CacheEntry\<close>. The field \<^verbatim>\<open>value\<close> is called \<open>valueStream\<close>. The type of \<open>tags\<close> is a
  parameter: a list of tags where the content matters, an address where the identity of
  the array object matters.
\<close>

record 't CacheEntry =
  valueStream :: stream
  timestamp :: real
  revalidate :: real
  expire :: real
  stale :: real
  tags :: 't

type_synonym entry = "tag list CacheEntry"

text \<open>A \<^verbatim>\<open>Promise<CacheEntry>\<close>: it resolves to an entry, or it never settles.\<close>

type_synonym pendingEntry = "entry option"

text \<open>
  What \<^verbatim>\<open>cloneCacheEntry\<close> stores in the two objects of its result: the first is the
  argument with its stream replaced, the second is built field by field.
\<close>

definition cloneCacheEntryFields :: "'t CacheEntry \<Rightarrow> 't CacheEntry \<times> 't CacheEntry" where
  "cloneCacheEntryFields e =
     (let (streamA, streamB) = tee (valueStream e);
          e1 = e\<lparr>valueStream := streamA\<rparr>;
          clonedEntry = \<lparr>valueStream = streamB, timestamp = timestamp e1,
                         revalidate = revalidate e1, expire = expire e1,
                         stale = stale e1, tags = tags e1\<rparr>
      in (e1, clonedEntry))"

text \<open>
  \<^verbatim>\<open>cloneCacheEntry\<close> on objects. The heap is the list of the entry objects allocated so
  far, an address is an index into it, and \<open>tags\<close> holds the address of the tags array.
  The function returns the new heap and the addresses of the two entries of its result;
  an address outside the heap (which no JavaScript reference can be) gives \<open>None\<close>.
\<close>

type_synonym address = nat

type_synonym heap = "address CacheEntry list"

definition cloneCacheEntry :: "heap \<Rightarrow> address \<Rightarrow> (heap \<times> address \<times> address) option" where
  "cloneCacheEntry h a =
     (if a < length h
      then let (e1, clonedEntry) = cloneCacheEntryFields (h ! a)
           in Some (h[a := e1] @ [clonedEntry], a, length h)
      else None)"

definition clonePendingCacheEntry :: "pendingEntry \<Rightarrow> (entry \<times> entry) option" where
  "clonePendingCacheEntry pendingCacheEntry =
     (case pendingCacheEntry of
        None \<Rightarrow> None
      | Some e \<Rightarrow> Some (cloneCacheEntryFields e))"

definition getNthCacheEntry :: "(entry \<times> entry) option \<Rightarrow> nat \<Rightarrow> pendingEntry" where
  "getNthCacheEntry split i =
     (case split of
        None \<Rightarrow> None
      | Some (e0, e1) \<Rightarrow> Some (if i = 0 then e0 else e1))"

subsection \<open>Work store and work unit store\<close>

text \<open>
  Modelled from the spec: \<^verbatim>\<open>CacheSignal\<close> (\<^verbatim>\<open>app-render/cache-signal\<close>) is not part of
  the sources; section 6 of the specification describes it as the read-accounting signal
  with \<^verbatim>\<open>beginRead\<close> and \<^verbatim>\<open>endRead\<close>. The model counts the calls of each.
\<close>

record CacheSignal =
  beginReadCalls :: nat
  endReadCalls :: nat

definition beginRead :: "CacheSignal \<Rightarrow> CacheSignal" where
  "beginRead c = c\<lparr>beginReadCalls := beginReadCalls c + 1\<rparr>"

definition endRead :: "CacheSignal \<Rightarrow> CacheSignal" where
  "endRead c = c\<lparr>endReadCalls := endReadCalls c + 1\<rparr>"

text \<open>
  The \<^verbatim>\<open>type\<close> of a work unit store. The wrapper names five types; \<open>OtherStore\<close> stands
  for any other.
\<close>

datatype StoreType = Request | Cache | Prerender | PrerenderPPR | PrerenderLegacy | OtherStore

text \<open>
  The resolved value of a lazy expiration: a time stamp or \<^verbatim>\<open>Infinity\<close>.
\<close>

datatype expiration = Finite real | Infinity

record ImplicitTags =
  implicitTagList :: "tag list"
  expirationsByCacheKind :: "string \<rightharpoonup> expiration"

text \<open>
  \<^verbatim>\<open>WorkUnitStore\<close>, one record for all its variants, with the fields the wrapper reads or
  writes; a field that a variant does not have is not read for that variant. The fields
  \<^verbatim>\<open>tags\<close>, \<^verbatim>\<open>stale\<close>, \<^verbatim>\<open>revalidate\<close> and \<^verbatim>\<open>expire\<close> carry the prefix \<open>store\<close>,
  \<^verbatim>\<open>type\<close> is \<open>storeType\<close>, and \<open>cacheControl\<close> is what
  \<^verbatim>\<open>headers.get('cache-control')\<close> returns. The last two fields hold the resume data
  caches that the accessors below return for the store, each a map from serialized key to
  pending entry.
\<close>

record WorkUnitStore =
  storeType :: StoreType
  implicitTags :: "ImplicitTags option"
  storeTags :: "tag list option"
  storeStale :: real
  storeRevalidate :: real
  storeExpire :: real
  explicitRevalidate :: "real option"
  explicitExpire :: "real option"
  explicitStale :: "real option"
  forceRevalidate :: bool
  cacheControl :: "string option"
  cacheSignal :: "CacheSignal option"
  renderSignal :: nat
  allowEmptyStaticShell :: bool
  renderResumeDataCache :: "(cacheKey \<rightharpoonup> pendingEntry) option"
  prerenderResumeDataCache :: "(cacheKey \<rightharpoonup> pendingEntry) option"

record CacheLife =
  profileRevalidate :: "real option"
  profileExpire :: "real option"
  profileStale :: "real option"

text \<open>The promise returned by \<^verbatim>\<open>cacheHandler.set(key, entry)\<close>.\<close>

datatype setPromise = SetPromise cacheKey pendingEntry

record WorkStore =
  isStaticGeneration :: bool
  isDraftMode :: bool
  isOnDemandRevalidate :: bool
  dev :: bool
  previouslyRevalidatedTags :: "tag list"
  pendingRevalidatedTags :: "tag list option"
  pendingRevalidateWrites :: "setPromise list option"
  invalidDynamicUsageError :: "jsError option"
  cacheLifeProfiles :: "(string \<rightharpoonup> CacheLife) option"

text \<open>
  Modelled from the spec: the constant \<^verbatim>\<open>DYNAMIC_EXPIRE\<close> (\<^verbatim>\<open>./constants\<close>) is not
  part of the sources; the specification gives the low-freshness floor as five minutes,
  in the seconds of \<^verbatim>\<open>expire\<close>.
\<close>

definition DYNAMIC_EXPIRE :: real where
  "DYNAMIC_EXPIRE = 300"

section \<open>Operations\<close>

subsection \<open>Freshness propagation\<close>

definition propagateCacheLifeAndTags :: "WorkUnitStore option \<Rightarrow> entry \<Rightarrow> WorkUnitStore option" where
  "propagateCacheLifeAndTags workUnitStore e =
     (case workUnitStore of
        None \<Rightarrow> None
      | Some s \<Rightarrow>
          if storeType s = Cache \<or> storeType s = Prerender \<or>
             storeType s = PrerenderPPR \<or> storeType s = PrerenderLegacy
          then
            let outerTags = (case storeTags s of Some ts \<Rightarrow> ts | None \<Rightarrow> []);
                outerTags1 = fold (\<lambda>tag outer. if tag \<in> set outer then outer else outer @ [tag])
                               (tags e) outerTags;
                s1 = s\<lparr>storeTags := Some outerTags1\<rparr>;
                s2 = (if storeStale s1 > stale e then s1\<lparr>storeStale := stale e\<rparr> else s1);
                s3 = (if storeRevalidate s2 > revalidate e
                      then s2\<lparr>storeRevalidate := revalidate e\<rparr> else s2);
                s4 = (if storeExpire s3 > expire e then s3\<lparr>storeExpire := expire e\<rparr> else s3)
            in Some s4
          else Some s)"

subsection \<open>Force revalidate and discard\<close>

definition shouldForceRevalidate :: "WorkStore \<Rightarrow> WorkUnitStore option \<Rightarrow> bool" where
  "shouldForceRevalidate workStore workUnitStore =
     (if isOnDemandRevalidate workStore \<or> isDraftMode workStore then True
      else (case workUnitStore of
              None \<Rightarrow> False
            | Some s \<Rightarrow>
                if dev workStore
                then (if storeType s = Request then cacheControl s = Some ''no-cache''
                      else if storeType s = Cache then forceRevalidate s
                      else False)
                else False))"

definition isRecentlyRevalidatedTag :: "tag \<Rightarrow> WorkStore \<Rightarrow> bool" where
  "isRecentlyRevalidatedTag t workStore =
     (if t \<in> set (previouslyRevalidatedTags workStore) then True
      else if (case pendingRevalidatedTags workStore of
                 None \<Rightarrow> False
               | Some pending \<Rightarrow> t \<in> set pending) then True
      else False)"

definition shouldDiscardCacheEntry :: "entry \<Rightarrow> WorkStore \<Rightarrow> tag list \<Rightarrow> real \<Rightarrow> bool" where
  "shouldDiscardCacheEntry e workStore implicitTagNames implicitTagsExpiration =
     (if list_ex (\<lambda>t. isRecentlyRevalidatedTag t workStore) (tags e) then True
      else if timestamp e \<le> implicitTagsExpiration then True
      else if list_ex (\<lambda>t. isRecentlyRevalidatedTag t workStore) implicitTagNames then True
      else False)"

subsection \<open>The entry generator\<close>

text \<open>
  What one execution of the cached function under React does, as far as the generator can
  observe it: the time it starts, after how many milliseconds the render settles when
  nothing aborts it (\<open>None\<close>: never), whether the 50000 ms timer runs first when both are
  due at the same instant, whether the dynamic access signal was aborted and with what
  reason, the chunks React produces and how the stream of
  \<^verbatim>\<open>renderToReadableStream\<close> ends, the errors that \<^verbatim>\<open>handleError\<close> pushed, and what the
  function body did to the inner cache store (\<^verbatim>\<open>cacheLife\<close>, \<^verbatim>\<open>cacheTag\<close>, nested
  cached calls).
\<close>

record execution =
  startTime :: real
  settlesAfter :: "nat option"
  timerFirst :: bool
  dynamicAccessAborted :: bool
  abortReason :: string
  renderedChunks :: "string list"
  renderEnding :: terminal
  handledErrors :: "jsError list"
  bodyEffect :: "WorkUnitStore \<Rightarrow> WorkUnitStore"

text \<open>
  The timer of \<^verbatim>\<open>setTimeout(..., 50000)\<close> runs its callback unless \<^verbatim>\<open>clearTimeout\<close>
  comes first, that is, unless \<^verbatim>\<open>prerender\<close> has settled before.
\<close>

definition timeoutMs :: nat where
  "timeoutMs = 50000"

definition timeoutReached :: "execution \<Rightarrow> bool" where
  "timeoutReached ex =
     (case settlesAfter ex of
        None \<Rightarrow> True
      | Some d \<Rightarrow> timeoutMs < d \<or> (d = timeoutMs \<and> timerFirst ex))"

text \<open>
  The call of \<^verbatim>\<open>endRead\<close> on the cache signal of a prerender store (\<^verbatim>\<open>beginRead\<close>
  likewise): nothing happens for another store type or without a signal.
\<close>

definition onCacheSignal :: "(CacheSignal \<Rightarrow> CacheSignal) \<Rightarrow> WorkUnitStore option \<Rightarrow> WorkUnitStore option" where
  "onCacheSignal f workUnitStore =
     (case workUnitStore of
        None \<Rightarrow> None
      | Some s \<Rightarrow>
          if storeType s = Prerender
          then Some (s\<lparr>cacheSignal := map_option f (cacheSignal s)\<rparr>)
          else Some s)"

text \<open>
  \<^verbatim>\<open>collectResult\<close> reads the saved branch to its end; when that stream never settles the
  promise stays pending (\<open>None\<close>) and nothing after the loop happens. Otherwise it returns
  the entry and the outer store after propagation and \<^verbatim>\<open>endRead\<close>. The buffer stream
  is described by what its \<^verbatim>\<open>pull\<close> delivers.
\<close>

definition collectResult ::
  "stream \<Rightarrow> WorkStore \<Rightarrow> WorkUnitStore option \<Rightarrow> WorkUnitStore \<Rightarrow> real \<Rightarrow> jsError list
     \<Rightarrow> (entry \<times> WorkUnitStore option) option" where
  "collectResult savedStream workStore outerWorkUnitStore innerCacheStore startT errors =
     (case ending savedStream of
        Unsettled \<Rightarrow> None
      | t \<Rightarrow>
          let buffer = chunks savedStream;
              errors1 = (case t of Errored err \<Rightarrow> errors @ [err] | _ \<Rightarrow> errors);
              bufferStream =
                (case invalidDynamicUsageError workStore of
                   Some err \<Rightarrow> Source [] (Errored err)
                 | None \<Rightarrow>
                     (case errors1 of
                        err # _ \<Rightarrow> Source buffer (Errored err)
                      | [] \<Rightarrow> Source buffer Closed));
              collectedTags = storeTags innerCacheStore;
              collectedRevalidate =
                (case explicitRevalidate innerCacheStore of
                   Some r \<Rightarrow> r | None \<Rightarrow> storeRevalidate innerCacheStore);
              collectedExpire =
                (case explicitExpire innerCacheStore of
                   Some x \<Rightarrow> x | None \<Rightarrow> storeExpire innerCacheStore);
              collectedStale =
                (case explicitStale innerCacheStore of
                   Some x \<Rightarrow> x | None \<Rightarrow> storeStale innerCacheStore);
              e = \<lparr>valueStream = bufferStream, timestamp = startT,
                    revalidate = collectedRevalidate, expire = collectedExpire,
                    stale = collectedStale,
                    tags = (case collectedTags of None \<Rightarrow> [] | Some ts \<Rightarrow> ts)\<rparr>;
              outer1 = propagateCacheLifeAndTags outerWorkUnitStore e;
              outer2 = onCacheSignal endRead outer1
          in Some (e, outer2))"

text \<open>
  \<^verbatim>\<open>GenerateCacheEntryResult\<close>: a stream with the pending entry, or the hanging promise
  made from the render signal and the abort reason.
\<close>

datatype GenerateCacheEntryResult =
    Cached stream pendingEntry
  | PrerenderDynamic nat string

text \<open>
  The end of \<^verbatim>\<open>generateCacheEntryImpl\<close>, from \<^verbatim>\<open>stream.tee()\<close> on. The result carries
  the work store and the outer store as the generator leaves them.
\<close>

definition teeAndCollect ::
  "stream \<Rightarrow> WorkStore \<Rightarrow> WorkUnitStore option \<Rightarrow> WorkUnitStore \<Rightarrow> real \<Rightarrow> jsError list
     \<Rightarrow> GenerateCacheEntryResult \<times> WorkStore \<times> WorkUnitStore option" where
  "teeAndCollect s workStore outerWorkUnitStore innerCacheStore startT errors =
     (let (returnStream, savedStream) = tee s
      in (case collectResult savedStream workStore outerWorkUnitStore innerCacheStore startT errors of
            None \<Rightarrow> (Cached returnStream None, workStore, outerWorkUnitStore)
          | Some (e, outer1) \<Rightarrow> (Cached returnStream (Some e), workStore, outer1)))"

definition generateCacheEntryImpl ::
  "WorkStore \<Rightarrow> WorkUnitStore option \<Rightarrow> WorkUnitStore \<Rightarrow> execution \<Rightarrow> jsError
     \<Rightarrow> GenerateCacheEntryResult \<times> WorkStore \<times> WorkUnitStore option" where
  "generateCacheEntryImpl workStore outerWorkUnitStore innerCacheStore ex timeoutError =
     (let startT = startTime ex;
          errors = handledErrors ex;
          inner1 = bodyEffect ex innerCacheStore
      in (case outerWorkUnitStore of
            None \<Rightarrow>
              teeAndCollect (Source (renderedChunks ex) (renderEnding ex))
                workStore outerWorkUnitStore inner1 startT errors
          | Some outer \<Rightarrow>
              if storeType outer = Prerender
              then
                (if timeoutReached ex
                 then teeAndCollect (Source [] (Errored timeoutError))
                        (workStore\<lparr>invalidDynamicUsageError := Some timeoutError\<rparr>)
                        outerWorkUnitStore inner1 startT errors
                 else if dynamicAccessAborted ex
                 then (PrerenderDynamic (renderSignal outer) (abortReason ex), workStore,
                       onCacheSignal endRead outerWorkUnitStore)
                 else teeAndCollect (Source (renderedChunks ex) Closed)
                        workStore outerWorkUnitStore inner1 startT errors)
              else
                teeAndCollect (Source (renderedChunks ex) (renderEnding ex))
                  workStore outerWorkUnitStore inner1 startT errors))"

text \<open>
  \<^verbatim>\<open>generateCacheEntryWithCacheContext\<close>: the two checks of the cache life profiles and
  the fresh inner cache store. Fields of the record that a store of type \<^verbatim>\<open>cache\<close> does
  not have are filled with empty values.
\<close>

definition generateCacheEntryWithCacheContext ::
  "WorkStore \<Rightarrow> WorkUnitStore option \<Rightarrow> execution \<Rightarrow> jsError
     \<Rightarrow> jsError + (GenerateCacheEntryResult \<times> WorkStore \<times> WorkUnitStore option)" where
  "generateCacheEntryWithCacheContext workStore outerWorkUnitStore ex timeoutError =
     (case cacheLifeProfiles workStore of
        None \<Rightarrow> Inl (ConfigError ''cacheLifeProfiles should always be provided.'')
      | Some profiles \<Rightarrow>
          (case profiles ''default'' of
             None \<Rightarrow> Inl (ConfigError ''A default cacheLife profile must always be provided.'')
           | Some defaultCacheLife \<Rightarrow>
               (case (profileRevalidate defaultCacheLife, profileExpire defaultCacheLife,
                      profileStale defaultCacheLife) of
                  (Some r, Some x, Some st) \<Rightarrow>
                    let cacheStore =
                          \<lparr>storeType = Cache,
                           implicitTags = (case outerWorkUnitStore of
                                             None \<Rightarrow> None | Some outer \<Rightarrow> implicitTags outer),
                           storeTags = None,
                           storeStale = st,
                           storeRevalidate = r,
                           storeExpire = x,
                           explicitRevalidate = None,
                           explicitExpire = None,
                           explicitStale = None,
                           forceRevalidate = shouldForceRevalidate workStore outerWorkUnitStore,
                           cacheControl = None,
                           cacheSignal = None,
                           renderSignal = 0,
                           allowEmptyStaticShell = False,
                           renderResumeDataCache = None,
                           prerenderResumeDataCache = None\<rparr>
                    in Inr (generateCacheEntryImpl workStore outerWorkUnitStore cacheStore ex
                              timeoutError)
                | _ \<Rightarrow> Inl (ConfigError ''A default cacheLife profile must always be provided.''))))"

text \<open>
  \<^verbatim>\<open>generateCacheEntry\<close> and \<^verbatim>\<open>generateCacheEntryWithRestoredWorkStore\<close> only switch the
  ambient async storage before they call on.
\<close>

definition generateCacheEntry ::
  "WorkStore \<Rightarrow> WorkUnitStore option \<Rightarrow> execution \<Rightarrow> jsError
     \<Rightarrow> jsError + (GenerateCacheEntryResult \<times> WorkStore \<times> WorkUnitStore option)" where
  "generateCacheEntry workStore outerWorkUnitStore ex timeoutError =
     generateCacheEntryWithCacheContext workStore outerWorkUnitStore ex timeoutError"

subsection \<open>The cached function\<close>

text \<open>
  The inputs of one call that come from outside the wrapper: the handler kind, the
  serialized key, whether the call is a page or layout, whether encoding the key aborted
  the dynamic access controller (and the message of the reason), what
  \<^verbatim>\<open>cacheHandler.get\<close> would return, the clock, and the executions of the function in
  the foreground and in the background regeneration.
\<close>

record invocation =
  kind :: string
  serializedCacheKey :: cacheKey
  isPageOrLayout :: bool
  encodeAborted :: bool
  encodeAbortMessage :: string
  handlerEntry :: "entry option"
  currentTime :: real
  foreground :: execution
  background :: execution
  timeoutError :: jsError

text \<open>
  The state a call works on: the two stores, and a log of the calls made to the cache
  handler and to the generator (the type of the outer store passed, \<open>None\<close> for
  \<^verbatim>\<open>undefined\<close>).
\<close>

record world =
  workStore :: WorkStore
  workUnitStore :: "WorkUnitStore option"
  handlerGetCalls :: "(cacheKey \<times> tag list) list"
  handlerSetCalls :: "(cacheKey \<times> pendingEntry) list"
  generateCalls :: "StoreType option list"
  cancelledStreams :: "stream list"

text \<open>
  How a call ends: it hands a stream to \<^verbatim>\<open>createFromReadableStream\<close>, it returns the
  hanging promise of \<^verbatim>\<open>makeHangingPromise(signal, expression)\<close>, it throws, or it waits
  for ever on a promise that never settles.
\<close>

datatype outcome =
    ReturnStream stream
  | HangingPromise nat string
  | Throws jsError
  | Suspended

definition inPrerender :: "WorkUnitStore option \<Rightarrow> bool" where
  "inPrerender wus = (case wus of None \<Rightarrow> False | Some s \<Rightarrow> storeType s = Prerender)"

definition hasCacheSignal :: "WorkUnitStore option \<Rightarrow> bool" where
  "hasCacheSignal wus =
     (case wus of None \<Rightarrow> False | Some s \<Rightarrow> storeType s = Prerender \<and> cacheSignal s \<noteq> None)"

definition makeHangingPromise :: "WorkUnitStore option \<Rightarrow> string \<Rightarrow> outcome" where
  "makeHangingPromise wus expression =
     HangingPromise (case wus of None \<Rightarrow> 0 | Some s \<Rightarrow> renderSignal s) expression"

definition dynamicUseCache :: string where
  "dynamicUseCache = ''dynamic \"use cache\"''"

text \<open>\<^verbatim>\<open>prerenderResumeDataCache.cache.set(key, entry)\<close> on the store of the world.\<close>

definition prerenderResumeDataCacheSet :: "cacheKey \<Rightarrow> pendingEntry \<Rightarrow> world \<Rightarrow> world" where
  "prerenderResumeDataCacheSet key p w =
     w\<lparr>workUnitStore :=
         (case workUnitStore w of
            None \<Rightarrow> None
          | Some s \<Rightarrow>
              Some (s\<lparr>prerenderResumeDataCache :=
                        map_option (\<lambda>c. c(key \<mapsto> p)) (prerenderResumeDataCache s)\<rparr>))\<rparr>"

text \<open>
  Modelled from the spec: \<^verbatim>\<open>getPrerenderResumeDataCache\<close> and
  \<^verbatim>\<open>getRenderResumeDataCache\<close> (\<^verbatim>\<open>work-unit-async-storage.external\<close>) are not part of
  the sources; the specification gives a mutable resume data cache that a prerender is
  populating and a read-only one used on resume, both owned by the outer context. The
  wrapper applies them to a store that is there (\<^verbatim>\<open>workUnitStore ? ... : null\<close>); the
  model reads the two caches off the store.
\<close>

definition getPrerenderResumeDataCache :: "WorkUnitStore option \<Rightarrow> (cacheKey \<rightharpoonup> pendingEntry) option" where
  "getPrerenderResumeDataCache wus =
     (case wus of None \<Rightarrow> None | Some s \<Rightarrow> prerenderResumeDataCache s)"

definition getRenderResumeDataCache :: "WorkUnitStore option \<Rightarrow> (cacheKey \<rightharpoonup> pendingEntry) option" where
  "getRenderResumeDataCache wus =
     (case wus of None \<Rightarrow> None | Some s \<Rightarrow> renderResumeDataCache s)"

text \<open>
  The block that saves a pending entry, the same in the miss branch and in the background
  regeneration: clone into the prerender resume data cache when there is one, call
  \<^verbatim>\<open>cacheHandler.set\<close>, push the promise on \<^verbatim>\<open>pendingRevalidateWrites\<close>.
\<close>

definition saveCacheEntry :: "cacheKey \<Rightarrow> pendingEntry \<Rightarrow> world \<Rightarrow> world" where
  "saveCacheEntry key pendingCacheEntry w =
     (let (savedCacheEntry, w1) =
            (case getPrerenderResumeDataCache (workUnitStore w) of
               Some c \<Rightarrow>
                 let split = clonePendingCacheEntry pendingCacheEntry
                 in (getNthCacheEntry split 0,
                     prerenderResumeDataCacheSet key (getNthCacheEntry split 1) w)
             | None \<Rightarrow> (pendingCacheEntry, w));
          promise = SetPromise key savedCacheEntry;
          w2 = w1\<lparr>handlerSetCalls := handlerSetCalls w1 @ [(key, savedCacheEntry)]\<rparr>
      in w2\<lparr>workStore := (workStore w2)\<lparr>pendingRevalidateWrites :=
               Some ((case pendingRevalidateWrites (workStore w2) of
                        None \<Rightarrow> [] | Some ps \<Rightarrow> ps) @ [promise])\<rparr>\<rparr>)"

text \<open>The miss branch: "Miss. Generate a new result."\<close>

definition cacheMiss :: "invocation \<Rightarrow> world \<Rightarrow> outcome \<times> world" where
  "cacheMiss call w =
     (let w0 = w\<lparr>generateCalls := generateCalls w @ [map_option storeType (workUnitStore w)]\<rparr>
      in (case generateCacheEntry (workStore w) (workUnitStore w) (foreground call)
                 (timeoutError call) of
            Inl err \<Rightarrow> (Throws err, w0)
          | Inr (result, workStore1, outer1) \<Rightarrow>
              let w1 = w0\<lparr>workStore := workStore1, workUnitStore := outer1\<rparr>
              in (case result of
                    PrerenderDynamic sig reason \<Rightarrow> (HangingPromise sig reason, w1)
                  | Cached newStream pendingCacheEntry \<Rightarrow>
                      let w2 = (if \<not> isDraftMode (workStore w1)
                                then saveCacheEntry (serializedCacheKey call) pendingCacheEntry w1
                                else w1)
                      in (ReturnStream newStream, w2))))"

text \<open>The hit branch, with the background regeneration of a stale entry.\<close>

definition cacheHit :: "invocation \<Rightarrow> entry \<Rightarrow> world \<Rightarrow> outcome \<times> world" where
  "cacheHit call e w =
     (let w1 = w\<lparr>workUnitStore := propagateCacheLifeAndTags (workUnitStore w) e\<rparr>;
          (s, w2) =
            (case getPrerenderResumeDataCache (workUnitStore w1) of
               Some c \<Rightarrow>
                 let (entryLeft, entryRight) = cloneCacheEntryFields e
                 in ((if hasCacheSignal (workUnitStore w1)
                      then createTrackedReadableStream (valueStream entryLeft)
                      else valueStream entryLeft),
                     prerenderResumeDataCacheSet (serializedCacheKey call) (Some entryRight) w1)
             | None \<Rightarrow>
                 (valueStream e,
                  w1\<lparr>workUnitStore := onCacheSignal endRead (workUnitStore w1)\<rparr>))
      in if currentTime call > timestamp e + revalidate e * 1000
         then
           (let w3 = w2\<lparr>generateCalls := generateCalls w2 @ [None]\<rparr>
            in (case generateCacheEntry (workStore w2) None (background call) (timeoutError call) of
                  Inl err \<Rightarrow> (Throws err, w3)
                | Inr (result, workStore1, outer1) \<Rightarrow>
                    let w4 = w3\<lparr>workStore := workStore1\<rparr>
                    in (case result of
                          Cached ignoredStream pendingCacheEntry \<Rightarrow>
                            let w5 = saveCacheEntry (serializedCacheKey call) pendingCacheEntry w4
                            in (ReturnStream s,
                                w5\<lparr>cancelledStreams := cancelledStreams w5 @ [ignoredStream]\<rparr>)
                        | PrerenderDynamic sig reason \<Rightarrow> (ReturnStream s, w4))))
         else (ReturnStream s, w2))"

text \<open>
  The implicit tags handed to the handler and to the discard test, and the expiration of
  the implicit tags for the handler kind (0 without implicit tags, without a lazy
  expiration for the kind, and for \<^verbatim>\<open>Infinity\<close>).
\<close>

definition implicitTagsOf :: "WorkUnitStore option \<Rightarrow> tag list" where
  "implicitTagsOf wus =
     (case wus of
        None \<Rightarrow> []
      | Some s \<Rightarrow> (case implicitTags s of None \<Rightarrow> [] | Some it \<Rightarrow> implicitTagList it))"

definition implicitTagsExpirationOf :: "string \<Rightarrow> WorkUnitStore option \<Rightarrow> real" where
  "implicitTagsExpirationOf k wus =
     (case wus of
        None \<Rightarrow> 0
      | Some s \<Rightarrow>
          (case implicitTags s of
             None \<Rightarrow> 0
           | Some it \<Rightarrow>
               (case expirationsByCacheKind it k of
                  None \<Rightarrow> 0
                | Some Infinity \<Rightarrow> 0
                | Some (Finite x) \<Rightarrow> x)))"

text \<open>
  The part of the cached function under \<^verbatim>\<open>if (stream === undefined)\<close>: the lookup in the
  cache handler, the discard test, the freshness decision and its three branches.
\<close>

definition cacheHandlerLookup :: "invocation \<Rightarrow> world \<Rightarrow> outcome \<times> world" where
  "cacheHandlerLookup call w =
     (let w1 = w\<lparr>workUnitStore := onCacheSignal beginRead (workUnitStore w)\<rparr>;
          force = shouldForceRevalidate (workStore w1) (workUnitStore w1);
          w2 = (if force then w1
                else w1\<lparr>handlerGetCalls := handlerGetCalls w1 @
                          [(serializedCacheKey call, implicitTagsOf (workUnitStore w1))]\<rparr>);
          entry0 = (if force then None else handlerEntry call);
          entry1 =
            (case entry0 of
               None \<Rightarrow> None
             | Some e \<Rightarrow>
                 if shouldDiscardCacheEntry e (workStore w2) (implicitTagsOf (workUnitStore w2))
                      (implicitTagsExpirationOf (kind call) (workUnitStore w2))
                 then None else Some e)
      in (case entry1 of
            None \<Rightarrow> cacheMiss call w2
          | Some e \<Rightarrow>
              if inPrerender (workUnitStore w2) \<and> (revalidate e = 0 \<or> expire e < DYNAMIC_EXPIRE)
              then (makeHangingPromise (workUnitStore w2) dynamicUseCache,
                    w2\<lparr>workUnitStore := onCacheSignal endRead (workUnitStore w2)\<rparr>)
              else if currentTime call > timestamp e + expire e * 1000 \<or>
                      (isStaticGeneration (workStore w2) \<and>
                       currentTime call > timestamp e + revalidate e * 1000)
              then cacheMiss call w2
              else cacheHit call e w2))"

text \<open>
  The cached function from the encoding of the cache key parts to the stream that is
  handed to \<^verbatim>\<open>createFromReadableStream\<close>: the early return when encoding the arguments
  touched dynamic input, the lookup in the render resume data cache, then the handler.
\<close>

definition cache :: "invocation \<Rightarrow> world \<Rightarrow> outcome \<times> world" where
  "cache call w =
     (if inPrerender (workUnitStore w) \<and> \<not> isPageOrLayout call \<and> encodeAborted call
      then (makeHangingPromise (workUnitStore w) (encodeAbortMessage call), w)
      else
        (case getRenderResumeDataCache (workUnitStore w) of
           None \<Rightarrow> cacheHandlerLookup call w
         | Some c \<Rightarrow>
             let w1 = w\<lparr>workUnitStore := onCacheSignal beginRead (workUnitStore w)\<rparr>
             in (case c (serializedCacheKey call) of
                   Some cachedEntry \<Rightarrow>
                     (case cachedEntry of
                        None \<Rightarrow> (Suspended, w1)
                      | Some existingEntry \<Rightarrow>
                          let w2 = w1\<lparr>workUnitStore :=
                                        propagateCacheLifeAndTags (workUnitStore w1) existingEntry\<rparr>
                          in if inPrerender (workUnitStore w2) \<and>
                                (revalidate existingEntry = 0 \<or>
                                 expire existingEntry < DYNAMIC_EXPIRE)
                             then (makeHangingPromise (workUnitStore w2) dynamicUseCache,
                                   w2\<lparr>workUnitStore := onCacheSignal endRead (workUnitStore w2)\<rparr>)
                             else
                               let (streamA, streamB) = tee (valueStream existingEntry);
                                   w3 = w2\<lparr>workUnitStore :=
                                          map_option
                                            (\<lambda>s. s\<lparr>renderResumeDataCache :=
                                                     map_option
                                                       (\<lambda>m. m(serializedCacheKey call \<mapsto>
                                                                Some (existingEntry\<lparr>valueStream := streamB\<rparr>)))
                                                       (renderResumeDataCache s)\<rparr>)
                                            (workUnitStore w2)\<rparr>
                               in (ReturnStream
                                     (if hasCacheSignal (workUnitStore w3)
                                      then createTrackedReadableStream streamA else streamA),
                                   w3))
                 | None \<Rightarrow>
                     let w2 = w1\<lparr>workUnitStore := onCacheSignal endRead (workUnitStore w1)\<rparr>
                     in if (case workUnitStore w2 of
                              None \<Rightarrow> False
                            | Some s \<Rightarrow> storeType s = Prerender \<and> allowEmptyStaticShell s)
                        then (makeHangingPromise (workUnitStore w2) dynamicUseCache, w2)
                        else cacheHandlerLookup call w2)))"

text \<open>
  The read accounting of one call, seen from its end: the \<^verbatim>\<open>beginRead\<close> calls on the
  cache signal of the store, and the \<^verbatim>\<open>endRead\<close> calls, those already made plus those
  the returned stream makes when the caller reads it to its end.
\<close>

definition readsBegun :: "outcome \<times> world \<Rightarrow> nat" where
  "readsBegun r =
     (case workUnitStore (snd r) of
        None \<Rightarrow> 0
      | Some s \<Rightarrow> (case cacheSignal s of None \<Rightarrow> 0 | Some c \<Rightarrow> beginReadCalls c))"

definition readsEnded :: "outcome \<times> world \<Rightarrow> nat" where
  "readsEnded r =
     (case workUnitStore (snd r) of
        None \<Rightarrow> 0
      | Some s \<Rightarrow> (case cacheSignal s of None \<Rightarrow> 0 | Some c \<Rightarrow> endReadCalls c)) +
     (case fst r of ReturnStream s \<Rightarrow> endReadsOnDrain s | _ \<Rightarrow> 0)"

subsection \<open>Notions used in the statements\<close>

text \<open>The tags of a store as a list (\<^verbatim>\<open>tags ?? []\<close>), and the freshness window with the tag set.\<close>

definition storeTagList :: "WorkUnitStore \<Rightarrow> tag list" where
  "storeTagList s = (case storeTags s of Some ts \<Rightarrow> ts | None \<Rightarrow> [])"

definition summary :: "WorkUnitStore \<Rightarrow> real \<times> real \<times> real \<times> tag set" where
  "summary s = (storeRevalidate s, storeExpire s, storeStale s, set (storeTagList s))"

text \<open>The store types into which \<^verbatim>\<open>propagateCacheLifeAndTags\<close> merges.\<close>

definition mergesInto :: "WorkUnitStore \<Rightarrow> bool" where
  "mergesInto s =
     (storeType s = Cache \<or> storeType s = Prerender \<or>
      storeType s = PrerenderPPR \<or> storeType s = PrerenderLegacy)"

text \<open>The loop of \<^verbatim>\<open>propagateCacheLifeAndTags\<close> over the tags of the entry.\<close>

definition pushNew :: "tag list \<Rightarrow> tag list \<Rightarrow> tag list" where
  "pushNew entryTags outerTags =
     fold (\<lambda>tag outer. if tag \<in> set outer then outer else outer @ [tag]) entryTags outerTags"

text \<open>
  The world in which the freshness decision is taken: after \<^verbatim>\<open>beginRead\<close>, and after
  \<^verbatim>\<open>cacheHandler.get\<close> unless revalidation is forced.
\<close>

definition afterGet :: "invocation \<Rightarrow> world \<Rightarrow> world" where
  "afterGet call w =
     w\<lparr>workUnitStore := onCacheSignal beginRead (workUnitStore w),
       handlerGetCalls := handlerGetCalls w @
          [(serializedCacheKey call, implicitTagsOf (workUnitStore w))]\<rparr>"

definition afterForce :: "world \<Rightarrow> world" where
  "afterForce w = w\<lparr>workUnitStore := onCacheSignal beginRead (workUnitStore w)\<rparr>"

text \<open>The discard test as \<^verbatim>\<open>cache\<close> calls it.\<close>

definition discards :: "invocation \<Rightarrow> world \<Rightarrow> entry \<Rightarrow> bool" where
  "discards call w e =
     shouldDiscardCacheEntry e (workStore w) (implicitTagsOf (workUnitStore w))
       (implicitTagsExpirationOf (kind call) (workUnitStore w))"

text \<open>The entry handed to \<^verbatim>\<open>cacheHandler.set\<close> for a pending entry.\<close>

definition savedEntry :: "pendingEntry \<Rightarrow> WorkUnitStore option \<Rightarrow> pendingEntry" where
  "savedEntry p wus =
     (case getPrerenderResumeDataCache wus of
        Some c \<Rightarrow> getNthCacheEntry (clonePendingCacheEntry p) 0
      | None \<Rightarrow> p)"

text \<open>The two checks of \<^verbatim>\<open>generateCacheEntryWithCacheContext\<close> pass.\<close>

definition hasDefaultCacheLife :: "WorkStore \<Rightarrow> bool" where
  "hasDefaultCacheLife ws =
     (case cacheLifeProfiles ws of
        None \<Rightarrow> False
      | Some profiles \<Rightarrow>
          (case profiles ''default'' of
             None \<Rightarrow> False
           | Some d \<Rightarrow> profileRevalidate d \<noteq> None \<and> profileExpire d \<noteq> None \<and>
                       profileStale d \<noteq> None))"

text \<open>The stream that the hit branch hands to the caller for an entry.\<close>

definition servedStream :: "entry \<Rightarrow> WorkUnitStore option \<Rightarrow> stream" where
  "servedStream e wus =
     (case getPrerenderResumeDataCache wus of
        None \<Rightarrow> valueStream e
      | Some c \<Rightarrow>
          if hasCacheSignal wus
          then Tracked (TeeA (valueStream e)) else TeeA (valueStream e))"

text \<open>
  The counters of the cache signal of a store, and an entry whose stream closes and is not
  itself a tracked stream.
\<close>

definition signalCounts :: "WorkUnitStore option \<Rightarrow> nat \<times> nat" where
  "signalCounts wus =
     (case wus of
        None \<Rightarrow> (0, 0)
      | Some s \<Rightarrow>
          (case cacheSignal s of
             None \<Rightarrow> (0, 0)
           | Some c \<Rightarrow> (beginReadCalls c, endReadCalls c)))"

definition wellBehaved :: "entry \<Rightarrow> bool" where
  "wellBehaved e = (ending (valueStream e) = Closed \<and> endReadsOnDrain (valueStream e) = 0)"

subsection \<open>Example inputs\<close>

definition exampleWorkStore :: WorkStore where
  "exampleWorkStore =
     \<lparr>isStaticGeneration = False, isDraftMode = False, isOnDemandRevalidate = False,
      dev = False, previouslyRevalidatedTags = [''revalidated''],
      pendingRevalidatedTags = None, pendingRevalidateWrites = None,
      invalidDynamicUsageError = None,
      cacheLifeProfiles =
        Some [''default'' \<mapsto>
                \<lparr>profileRevalidate = Some 900, profileExpire = Some 4294967294,
                 profileStale = Some 300\<rparr>]\<rparr>"

definition exampleStore :: "StoreType \<Rightarrow> WorkUnitStore" where
  "exampleStore ty =
     \<lparr>storeType = ty, implicitTags = None, storeTags = None, storeStale = 300,
      storeRevalidate = 900, storeExpire = 3600, explicitRevalidate = None,
      explicitExpire = None, explicitStale = None, forceRevalidate = False,
      cacheControl = None,
      cacheSignal = (if ty = Prerender
                     then Some \<lparr>beginReadCalls = 0, endReadCalls = 0\<rparr> else None),
      renderSignal = 7, allowEmptyStaticShell = False,
      renderResumeDataCache = None, prerenderResumeDataCache = None\<rparr>"

definition exampleEntry :: "stream \<Rightarrow> real \<Rightarrow> real \<Rightarrow> tag list \<Rightarrow> entry" where
  "exampleEntry v rv ex ts =
     \<lparr>valueStream = v, timestamp = 1000, revalidate = rv, expire = ex, stale = 30, tags = ts\<rparr>"

definition exampleExecution :: execution where
  "exampleExecution =
     \<lparr>startTime = 5000, settlesAfter = Some 10, timerFirst = False,
      dynamicAccessAborted = False, abortReason = ''params'',
      renderedChunks = [''fresh''], renderEnding = Closed, handledErrors = [],
      bodyEffect = (\<lambda>s. s)\<rparr>"

definition exampleCall :: "entry option \<Rightarrow> real \<Rightarrow> invocation" where
  "exampleCall e now =
     \<lparr>kind = ''default'', serializedCacheKey = [107], isPageOrLayout = False,
      encodeAborted = False, encodeAbortMessage = [], handlerEntry = e,
      currentTime = now, foreground = exampleExecution, background = exampleExecution,
      timeoutError = UseCacheTimeoutError\<rparr>"

definition exampleWorld :: "WorkUnitStore option \<Rightarrow> world" where
  "exampleWorld s =
     \<lparr>workStore = exampleWorkStore, workUnitStore = s, handlerGetCalls = [],
      handlerSetCalls = [], generateCalls = [], cancelledStreams = []\<rparr>"


section \<open>Verification\<close>

subsection \<open>The key encoder\<close>

lemma hexDigit_unat: "d < 16 \<Longrightarrow> unat (hexDigit d) = (if d < 10 then 48 + d else 87 + d)"
proof -
  assume d: "d < 16"
  have "unat (of_nat (48 + d) :: 16 word) = 48 + d" "unat (of_nat (87 + d) :: 16 word) = 87 + d"
    using d unfolding unat_of_nat by simp_all
  then show ?thesis unfolding hexDigit_def by presburger
qed

lemma hexDigit_not_colon: "d < 16 \<Longrightarrow> hexDigit d \<noteq> colon"
proof
  assume d: "d < 16" and e: "hexDigit d = colon"
  from e have "unat (hexDigit d) = unat colon" by simp
  with d show False by (simp add: hexDigit_unat colon_def split: if_splits)
qed

lemma hexDigit_inj: "a < 16 \<Longrightarrow> b < 16 \<Longrightarrow> hexDigit a = hexDigit b \<Longrightarrow> a = b"
proof -
  assume a: "a < 16" and b: "b < 16" and e: "hexDigit a = hexDigit b"
  from e have "unat (hexDigit a) = unat (hexDigit b)" by simp
  with a b show "a = b" by (simp add: hexDigit_unat split: if_splits)
qed

lemma colon_notin_toString16: "colon \<notin> set (toString16 n)"
proof (induction n rule: toString16.induct)
  case (1 n)
  show ?case
  proof (cases "n < 16")
    case True
    then show ?thesis using hexDigit_not_colon [of n] by (simp add: toString16.simps [of n])
  next
    case False
    have "n mod 16 < 16" by simp
    then have "hexDigit (n mod 16) \<noteq> colon" by (rule hexDigit_not_colon)
    with False 1 show ?thesis by (auto simp add: toString16.simps [of n])
  qed
qed

lemma toString16_nonempty: "toString16 n \<noteq> []"
  by (simp add: toString16.simps [of n])

lemma toString16_inj: "toString16 n = toString16 m \<Longrightarrow> n = m"
proof (induction n arbitrary: m rule: toString16.induct)
  case (1 n)
  show ?case
  proof (cases "n < 16")
    case True
    note n = True
    show ?thesis
    proof (cases "m < 16")
      case True
      with n 1(2) show ?thesis
        by (simp add: toString16.simps [of n] toString16.simps [of m] hexDigit_inj)
    next
      case False
      with n 1(2) toString16_nonempty [of "m div 16"] show ?thesis
        by (simp add: toString16.simps [of n] toString16.simps [of m])
    qed
  next
    case False
    note n = False
    show ?thesis
    proof (cases "m < 16")
      case True
      with n 1(2) toString16_nonempty [of "n div 16"] show ?thesis
        by (simp add: toString16.simps [of n] toString16.simps [of m])
    next
      case False
      with n 1(2) have e: "toString16 (n div 16) = toString16 (m div 16)"
        and d: "hexDigit (n mod 16) = hexDigit (m mod 16)"
        by (simp_all add: toString16.simps [of n] toString16.simps [of m])
      from 1(1) [OF n e] have "n div 16 = m div 16" .
      moreover from d have "n mod 16 = m mod 16" by (intro hexDigit_inj) simp_all
      ultimately show ?thesis by (metis div_mult_mod_eq)
    qed
  qed
qed

text \<open>Two strings that agree up to the first occurrence of a separator agree on both sides of it.\<close>

lemma split_at_first:
  "x \<notin> set a \<Longrightarrow> x \<notin> set b \<Longrightarrow> a @ x # r = b @ x # r' \<Longrightarrow> a = b \<and> r = r'"
proof (induction a arbitrary: b)
  case Nil
  then show ?case by (cases b) auto
next
  case (Cons y a)
  then show ?case by (cases b) auto
qed

lemma field_split: "field s @ r = field t @ r' \<Longrightarrow> s = t \<and> r = r'"
proof -
  assume "field s @ r = field t @ r'"
  then have e: "toString16 (length s) @ colon # (s @ r) = toString16 (length t) @ colon # (t @ r')"
    by (simp add: field_def)
  have c: "toString16 (length s) = toString16 (length t) \<and> s @ r = t @ r'"
    by (rule split_at_first [OF colon_notin_toString16 colon_notin_toString16 e])
  from c have "length s = length t"
    by (intro toString16_inj) (rule conjunct1)
  moreover from c have "s @ r = t @ r'"
    by (rule conjunct2)
  ultimately show ?thesis by simp
qed

lemma field_nonempty: "field s \<noteq> []"
  by (simp add: field_def)

lemma flatten_inj: "flatten xs = flatten ys \<Longrightarrow> xs = ys"
proof (induction xs arbitrary: ys)
  case Nil
  then show ?case
  proof (cases ys)
    case (Cons y ys')
    with Nil show ?thesis by (cases y) (simp add: field_nonempty)
  qed simp
next
  case (Cons x xs)
  obtain k v where x: "x = (k, v)" by (cases x)
  show ?case
  proof (cases ys)
    case Nil
    with Cons.prems x show ?thesis by (simp add: field_nonempty)
  next
    case (Cons y ys')
    obtain k' v' where y: "y = (k', v')" by (cases y)
    from Cons.prems x y Cons
    have e: "field k @ (field v @ flatten xs) = field k' @ (field v' @ flatten ys')"
      by simp
    from field_split [OF e] have k: "k = k'" and e2: "field v @ flatten xs = field v' @ flatten ys'"
      by simp_all
    from field_split [OF e2] have v: "v = v'" and e3: "flatten xs = flatten ys'"
      by simp_all
    from Cons.IH [OF e3] k v x y Cons show ?thesis by simp
  qed
qed

lemma foldl_encode:
  "foldl (\<lambda>result (key, v).
              let result1 = result @ (toString16 (length key) @ [colon] @ key);
                  sv = stringValue le v
              in result1 @ (toString16 (length sv) @ [colon] @ sv)) acc fd
   = acc @ flatten (map (\<lambda>(key, v). (key, stringValue le v)) fd)"
  by (induction fd arbitrary: acc) (auto simp add: field_def Let_def)

lemma encodeFormData_flatten:
  "encodeFormData le fd = flatten (map (\<lambda>(key, v). (key, stringValue le v)) fd)"
proof -
  have "encodeFormData le fd = [] @ flatten (map (\<lambda>(key, v). (key, stringValue le v)) fd)"
    unfolding encodeFormData_def by (rule foldl_encode)
  then show ?thesis by simp
qed

lemma flatten_append: "flatten (xs @ ys) = flatten xs @ flatten ys"
  by (induction xs) auto

text \<open>
  Claim C2. \<^verbatim>\<open>encodeFormData\<close> starts from the empty string and appends, for each
  entry, the hexadecimal length of the field name, a colon and the name, then the
  hexadecimal length of the stringified value, a colon and the stringified value. Two form
  data whose sequences of (name, stringified value) pairs differ never give the same
  string.
\<close>

theorem encodeFormData_injective:
  "encodeFormData le [] = [] \<and>
   encodeFormData le (fd @ [(key, v)]) =
     encodeFormData le fd @
     toString16 (length key) @ [colon] @ key @
     toString16 (length (stringValue le v)) @ [colon] @ stringValue le v \<and>
   (map (\<lambda>(key, v). (key, stringValue le v)) fd1 \<noteq>
    map (\<lambda>(key, v). (key, stringValue le v)) fd2 \<longrightarrow>
    encodeFormData le fd1 \<noteq> encodeFormData le fd2)"
proof -
  have "encodeFormData le [] = []"
    by (simp add: encodeFormData_def)
  moreover have "encodeFormData le (fd @ [(key, v)]) =
     encodeFormData le fd @
     toString16 (length key) @ [colon] @ key @
     toString16 (length (stringValue le v)) @ [colon] @ stringValue le v"
    by (simp add: encodeFormData_flatten flatten_append field_def)
  moreover have "map (\<lambda>(key, v). (key, stringValue le v)) fd1 \<noteq>
      map (\<lambda>(key, v). (key, stringValue le v)) fd2 \<longrightarrow>
      encodeFormData le fd1 \<noteq> encodeFormData le fd2"
    unfolding encodeFormData_flatten using flatten_inj by blast
  ultimately show ?thesis by blast
qed

text \<open>
  The names \<^verbatim>\<open>ab\<close> and \<^verbatim>\<open>a\<close> with the values \<^verbatim>\<open>c\<close> and \<^verbatim>\<open>bc\<close>: the same characters
  in the same order, told apart by the lengths (\<^verbatim>\<open>2:ab1:c\<close> and \<^verbatim>\<open>1:a2:bc\<close>).
\<close>

theorem encodeFormData_injective_witness:
  "map (\<lambda>(key, v). (key, stringValue True v)) [([97, 98], StringValue [99])] \<noteq>
   map (\<lambda>(key, v). (key, stringValue True v)) [([97], StringValue [98, 99])] \<and>
   encodeFormData True [([97, 98], StringValue [99])] \<noteq>
   encodeFormData True [([97], StringValue [98, 99])] \<and>
   encodeFormData True [([97, 98], StringValue [99])] = [50, 58, 97, 98, 49, 58, 99]"
proof -
  have h: "map (\<lambda>(key, v). (key, stringValue True v)) [([97, 98], StringValue [99])] \<noteq>
           map (\<lambda>(key, v). (key, stringValue True v)) [([97], StringValue [98, 99])]"
    by (simp add: stringValue_def)
  have v: "encodeFormData True [([97, 98], StringValue [99])] = [50, 58, 97, 98, 49, 58, 99]"
    by (simp add: encodeFormData_def stringValue_def toString16.simps hexDigit_def colon_def)
  from encodeFormData_injective
         [of True "[]" "[]" "StringValue []" "[([97, 98], StringValue [99])]"
             "[([97], StringValue [98, 99])]"] h
  have "encodeFormData True [([97, 98], StringValue [99])] \<noteq>
        encodeFormData True [([97], StringValue [98, 99])]"
    by blast
  with h v show ?thesis by blast
qed

text \<open>
  Claim C8. The conversion of a binary value pairs the bytes into 16-bit code units and
  gives a trailing odd byte a code unit of its own, but it is not lossless: the byte
  \<open>0x41\<close> alone and the two bytes \<open>0x41 0x00\<close> give the same one-character string on a
  little-endian platform, and the byte \<open>0x00\<close> alone and twice give the same string in
  either byte order, hence the same key for two different form data.
\<close>

theorem stringValue_binary_collision:
  "FileValue [0x41] \<noteq> FileValue [0x41, 0] \<and>
   stringValue True (FileValue [0x41]) = [0x41] \<and>
   stringValue True (FileValue [0x41, 0]) = [0x41] \<and>
   (\<forall>le. stringValue le (FileValue [0]) = stringValue le (FileValue [0, 0])) \<and>
   (\<forall>le key. encodeFormData le [(key, FileValue [0])] =
              encodeFormData le [(key, FileValue [0, 0])])"
proof -
  have a: "stringValue le (FileValue [0]) = stringValue le (FileValue [0, 0])" for le
    by (simp add: stringValue_def Uint16Array_def fromCodePoint_def uint16_def)
  have b: "encodeFormData le [(key, FileValue [0])] =
           encodeFormData le [(key, FileValue [0, 0])]" for le key
    by (simp add: encodeFormData_def a)
  have c: "stringValue True (FileValue [0x41]) = [0x41]"
    by (simp add: stringValue_def Uint16Array_def fromCodePoint_def uint16_def)
  have d: "stringValue True (FileValue [0x41, 0]) = [0x41]"
    by (simp add: stringValue_def Uint16Array_def fromCodePoint_def uint16_def)
  show ?thesis using a b c d by simp
qed

subsection \<open>Freshness propagation\<close>

lemma pushNew_set: "set (pushNew ts outer) = set outer \<union> set ts"
  unfolding pushNew_def by (induction ts arbitrary: outer) auto

lemma pushNew_distinct: "distinct outer \<Longrightarrow> distinct (pushNew ts outer)"
  unfolding pushNew_def by (induction ts arbitrary: outer) auto

lemma pushNew_absorb: "set ts \<subseteq> set outer \<Longrightarrow> pushNew ts outer = outer"
  unfolding pushNew_def by (induction ts arbitrary: outer) auto

lemma propagate_closed:
  "mergesInto s \<Longrightarrow>
   propagateCacheLifeAndTags (Some s) e =
     Some (s\<lparr>storeTags := Some (pushNew (tags e) (storeTagList s)),
             storeStale := min (storeStale s) (stale e),
             storeRevalidate := min (storeRevalidate s) (revalidate e),
             storeExpire := min (storeExpire s) (expire e)\<rparr>)"
  unfolding propagateCacheLifeAndTags_def mergesInto_def pushNew_def storeTagList_def
  by (simp add: Let_def min_def)

lemma propagate_other:
  "\<not> mergesInto s \<Longrightarrow> propagateCacheLifeAndTags (Some s) e = Some s"
  unfolding propagateCacheLifeAndTags_def mergesInto_def by simp


lemma Min_insert_min:
  "finite S \<Longrightarrow> Min (insert (min a b) S) = Min (insert a (insert b S))" for a :: real
  by (cases "S = {}") (simp_all add: min.assoc)

lemma propagate_all_closed:
  "mergesInto s \<Longrightarrow>
   \<exists>s'. foldl propagateCacheLifeAndTags (Some s) es = Some s' \<and> mergesInto s' \<and>
        set (storeTagList s') = set (storeTagList s) \<union> \<Union> (set ` tags ` set es) \<and>
        (distinct (storeTagList s) \<longrightarrow> distinct (storeTagList s')) \<and>
        storeStale s' = Min (insert (storeStale s) (stale ` set es)) \<and>
        storeRevalidate s' = Min (insert (storeRevalidate s) (revalidate ` set es)) \<and>
        storeExpire s' = Min (insert (storeExpire s) (expire ` set es))"
proof (induction es arbitrary: s)
  case Nil
  then show ?case by simp
next
  case (Cons e es)
  let ?s1 = "s\<lparr>storeTags := Some (pushNew (tags e) (storeTagList s)),
             storeStale := min (storeStale s) (stale e),
             storeRevalidate := min (storeRevalidate s) (revalidate e),
             storeExpire := min (storeExpire s) (expire e)\<rparr>"
  have step: "propagateCacheLifeAndTags (Some s) e = Some ?s1"
    using Cons.prems by (rule propagate_closed)
  have m1: "mergesInto ?s1" using Cons.prems by (simp add: mergesInto_def)
  have t1: "storeTagList ?s1 = pushNew (tags e) (storeTagList s)"
    by (simp add: storeTagList_def)
  from Cons.IH [OF m1] obtain s' where
    f: "foldl propagateCacheLifeAndTags (Some ?s1) es = Some s'" and
    m: "mergesInto s'" and
    ts: "set (storeTagList s') = set (storeTagList ?s1) \<union> \<Union> (set ` tags ` set es)" and
    d: "distinct (storeTagList ?s1) \<longrightarrow> distinct (storeTagList s')" and
    st: "storeStale s' = Min (insert (storeStale ?s1) (stale ` set es))" and
    rv: "storeRevalidate s' = Min (insert (storeRevalidate ?s1) (revalidate ` set es))" and
    ex: "storeExpire s' = Min (insert (storeExpire ?s1) (expire ` set es))"
    by blast
  have "foldl propagateCacheLifeAndTags (Some s) (e # es) = Some s'"
    using step f by simp
  moreover have "set (storeTagList s') = set (storeTagList s) \<union> \<Union> (set ` tags ` set (e # es))"
    using ts t1 by (auto simp add: pushNew_set)
  moreover have "distinct (storeTagList s) \<longrightarrow> distinct (storeTagList s')"
    using d t1 by (simp add: pushNew_distinct)
  moreover have "storeStale s' = Min (insert (storeStale s) (stale ` set (e # es)))"
    using st by (simp add: Min_insert_min)
  moreover have "storeRevalidate s' = Min (insert (storeRevalidate s) (revalidate ` set (e # es)))"
    using rv by (simp add: Min_insert_min)
  moreover have "storeExpire s' = Min (insert (storeExpire s) (expire ` set (e # es)))"
    using ex by (simp add: Min_insert_min)
  ultimately show ?case using m by blast
qed

lemma propagate_idem:
  "propagateCacheLifeAndTags (propagateCacheLifeAndTags (Some s) e) e =
   propagateCacheLifeAndTags (Some s) e"
proof (cases "mergesInto s")
  case True
  let ?s1 = "s\<lparr>storeTags := Some (pushNew (tags e) (storeTagList s)),
             storeStale := min (storeStale s) (stale e),
             storeRevalidate := min (storeRevalidate s) (revalidate e),
             storeExpire := min (storeExpire s) (expire e)\<rparr>"
  have m1: "mergesInto ?s1" using True by (simp add: mergesInto_def)
  have "pushNew (tags e) (pushNew (tags e) (storeTagList s)) = pushNew (tags e) (storeTagList s)"
    by (rule pushNew_absorb) (simp add: pushNew_set)
  then show ?thesis
    unfolding propagate_closed [OF True] propagate_closed [OF m1]
    by (simp add: storeTagList_def)
next
  case False
  then show ?thesis by (simp add: propagate_other)
qed

text \<open>
  Claim C1. For a parent store of type cache, prerender, prerender-ppr or prerender-legacy,
  propagating an entry sets each of \<^verbatim>\<open>revalidate\<close>, \<^verbatim>\<open>expire\<close> and \<^verbatim>\<open>stale\<close> of the
  parent to the minimum of its value and the value of the entry, and makes the tags of the
  parent the union of its tags and the tags of the entry, without introducing a duplicate.
  Propagating the same entry again changes nothing. After any number of children the window
  of the parent is the minimum over the children and its initial value and its tags are the
  union; the same children in another order (or repeated) give the same window and the
  same set of tags. The tags are compared as sets: the array lists them in the order of
  arrival.
\<close>

theorem propagateCacheLifeAndTags_merge:
  assumes "storeType s = Cache \<or> storeType s = Prerender \<or>
           storeType s = PrerenderPPR \<or> storeType s = PrerenderLegacy"
  shows "map_option summary (propagateCacheLifeAndTags (Some s) e) =
           Some (min (storeRevalidate s) (revalidate e), min (storeExpire s) (expire e),
                 min (storeStale s) (stale e), set (storeTagList s) \<union> set (tags e)) \<and>
         (distinct (storeTagList s) \<longrightarrow>
            map_option (distinct \<circ> storeTagList) (propagateCacheLifeAndTags (Some s) e) = Some True) \<and>
         propagateCacheLifeAndTags (propagateCacheLifeAndTags (Some s) e) e =
           propagateCacheLifeAndTags (Some s) e \<and>
         map_option summary (foldl propagateCacheLifeAndTags (Some s) es) =
           Some (Min (insert (storeRevalidate s) (revalidate ` set es)),
                 Min (insert (storeExpire s) (expire ` set es)),
                 Min (insert (storeStale s) (stale ` set es)),
                 set (storeTagList s) \<union> \<Union> (set ` tags ` set es)) \<and>
         (set es' = set es \<longrightarrow>
            map_option summary (foldl propagateCacheLifeAndTags (Some s) es') =
            map_option summary (foldl propagateCacheLifeAndTags (Some s) es))"
proof -
  have m: "mergesInto s" using assms by (simp add: mergesInto_def)
  have all: "map_option summary (foldl propagateCacheLifeAndTags (Some s) xs) =
           Some (Min (insert (storeRevalidate s) (revalidate ` set xs)),
                 Min (insert (storeExpire s) (expire ` set xs)),
                 Min (insert (storeStale s) (stale ` set xs)),
                 set (storeTagList s) \<union> \<Union> (set ` tags ` set xs))" for xs
    using propagate_all_closed [OF m, of xs] by (auto simp add: summary_def)
  have one: "map_option summary (propagateCacheLifeAndTags (Some s) e) =
           Some (min (storeRevalidate s) (revalidate e), min (storeExpire s) (expire e),
                 min (storeStale s) (stale e), set (storeTagList s) \<union> set (tags e))"
    unfolding propagate_closed [OF m] by (simp add: summary_def storeTagList_def pushNew_set)
  have dist: "distinct (storeTagList s) \<longrightarrow>
            map_option (distinct \<circ> storeTagList) (propagateCacheLifeAndTags (Some s) e) = Some True"
    unfolding propagate_closed [OF m] by (simp add: storeTagList_def pushNew_distinct)
  have perm: "set es' = set es \<longrightarrow>
            map_option summary (foldl propagateCacheLifeAndTags (Some s) es') =
            map_option summary (foldl propagateCacheLifeAndTags (Some s) es)"
    unfolding all by simp
  show ?thesis using one dist propagate_idem all perm by blast
qed


text \<open>
  A cache store that receives two children in both orders: the window becomes
  (30, 600, 30) and the tags become \<open>a\<close> and \<open>b\<close> either way.
\<close>

theorem propagateCacheLifeAndTags_merge_witness:
  "(storeType (exampleStore Cache) = Cache \<or> storeType (exampleStore Cache) = Prerender \<or>
    storeType (exampleStore Cache) = PrerenderPPR \<or>
    storeType (exampleStore Cache) = PrerenderLegacy) \<and>
   map_option summary
     (foldl propagateCacheLifeAndTags (Some (exampleStore Cache))
        [exampleEntry (Source [] Closed) 60 600 [''a''],
         exampleEntry (Source [] Closed) 30 7200 [''b'', ''a'']]) =
     Some (30, 600, 30, {''a'', ''b''}) \<and>
   map_option summary
     (foldl propagateCacheLifeAndTags (Some (exampleStore Cache))
        [exampleEntry (Source [] Closed) 30 7200 [''b'', ''a''],
         exampleEntry (Source [] Closed) 60 600 [''a'']]) =
     Some (30, 600, 30, {''a'', ''b''})"
proof -
  have h: "storeType (exampleStore Cache) = Cache \<or> storeType (exampleStore Cache) = Prerender \<or>
    storeType (exampleStore Cache) = PrerenderPPR \<or>
    storeType (exampleStore Cache) = PrerenderLegacy"
    by (simp add: exampleStore_def)
  have s: "set [exampleEntry (Source [] Closed) 30 7200 [''b'', ''a''],
                exampleEntry (Source [] Closed) 60 600 [''a'']] =
           set [exampleEntry (Source [] Closed) 60 600 [''a''],
                exampleEntry (Source [] Closed) 30 7200 [''b'', ''a'']]"
    by auto
  have v: "map_option summary
     (foldl propagateCacheLifeAndTags (Some (exampleStore Cache))
        [exampleEntry (Source [] Closed) 60 600 [''a''],
         exampleEntry (Source [] Closed) 30 7200 [''b'', ''a'']]) =
     Some (30, 600, 30, {''a'', ''b''})"
    by (auto simp add: exampleStore_def exampleEntry_def propagateCacheLifeAndTags_def
        summary_def storeTagList_def Let_def)
  from propagateCacheLifeAndTags_merge
         [OF h, of "exampleEntry (Source [] Closed) 60 600 [''a'']"
            "[exampleEntry (Source [] Closed) 60 600 [''a''],
              exampleEntry (Source [] Closed) 30 7200 [''b'', ''a'']]"
            "[exampleEntry (Source [] Closed) 30 7200 [''b'', ''a''],
              exampleEntry (Source [] Closed) 60 600 [''a'']]"] s
  have "map_option summary
     (foldl propagateCacheLifeAndTags (Some (exampleStore Cache))
        [exampleEntry (Source [] Closed) 30 7200 [''b'', ''a''],
         exampleEntry (Source [] Closed) 60 600 [''a'']]) =
     map_option summary
     (foldl propagateCacheLifeAndTags (Some (exampleStore Cache))
        [exampleEntry (Source [] Closed) 60 600 [''a''],
         exampleEntry (Source [] Closed) 30 7200 [''b'', ''a'']])"
    by blast
  with h v show ?thesis by simp
qed

subsection \<open>Evaluation\<close>

lemmas example_defs =
  exampleWorkStore_def exampleStore_def exampleEntry_def exampleExecution_def
  exampleCall_def exampleWorld_def

lemmas model_defs =
  cacheHandlerLookup_def cacheMiss_def cacheHit_def cache_def saveCacheEntry_def
  generateCacheEntry_def generateCacheEntryWithCacheContext_def generateCacheEntryImpl_def
  teeAndCollect_def collectResult_def propagateCacheLifeAndTags_def onCacheSignal_def
  shouldForceRevalidate_def shouldDiscardCacheEntry_def isRecentlyRevalidatedTag_def
  implicitTagsOf_def implicitTagsExpirationOf_def inPrerender_def hasCacheSignal_def
  makeHangingPromise_def getPrerenderResumeDataCache_def getRenderResumeDataCache_def
  prerenderResumeDataCacheSet_def cloneCacheEntryFields_def clonePendingCacheEntry_def
  getNthCacheEntry_def tee_def createTrackedReadableStream_def timeoutReached_def
  timeoutMs_def DYNAMIC_EXPIRE_def beginRead_def endRead_def discards_def afterGet_def
  afterForce_def hasDefaultCacheLife_def savedEntry_def servedStream_def Let_def


subsection \<open>The lookup in the cache handler\<close>

lemma onCacheSignal_simps [simp]:
  "shouldForceRevalidate ws (onCacheSignal f wus) = shouldForceRevalidate ws wus"
  "implicitTagsOf (onCacheSignal f wus) = implicitTagsOf wus"
  "implicitTagsExpirationOf k (onCacheSignal f wus) = implicitTagsExpirationOf k wus"
  "inPrerender (onCacheSignal f wus) = inPrerender wus"
  "map_option storeType (onCacheSignal f wus) = map_option storeType wus"
  "getPrerenderResumeDataCache (onCacheSignal f wus) = getPrerenderResumeDataCache wus"
  "makeHangingPromise (onCacheSignal f wus) x = makeHangingPromise wus x"
  by (auto simp add: onCacheSignal_def shouldForceRevalidate_def implicitTagsOf_def
      implicitTagsExpirationOf_def inPrerender_def getPrerenderResumeDataCache_def
      makeHangingPromise_def split: option.splits)

text \<open>How \<^verbatim>\<open>cache\<close> reaches the lookup in the cache handler.\<close>

lemma cache_without_resume_cache:
  "\<not> (inPrerender (workUnitStore w) \<and> \<not> isPageOrLayout call \<and> encodeAborted call) \<Longrightarrow>
   getRenderResumeDataCache (workUnitStore w) = None \<Longrightarrow>
   cache call w = cacheHandlerLookup call w"
  by (auto simp add: cache_def)

lemma cache_resume_miss:
  "\<not> (inPrerender (workUnitStore w) \<and> \<not> isPageOrLayout call \<and> encodeAborted call) \<Longrightarrow>
   getRenderResumeDataCache (workUnitStore w) = Some c \<Longrightarrow>
   c (serializedCacheKey call) = None \<Longrightarrow>
   \<not> (case workUnitStore w of
        None \<Rightarrow> False
      | Some s \<Rightarrow> storeType s = Prerender \<and> allowEmptyStaticShell s) \<Longrightarrow>
   cache call w =
     cacheHandlerLookup call
       (w\<lparr>workUnitStore := onCacheSignal endRead (onCacheSignal beginRead (workUnitStore w))\<rparr>)"
  by (cases "workUnitStore w")
     (auto simp add: cache_def Let_def onCacheSignal_def getRenderResumeDataCache_def)

lemma lookup_forced:
  "shouldForceRevalidate (workStore w) (workUnitStore w) \<Longrightarrow>
   cacheHandlerLookup call w = cacheMiss call (afterForce w)"
  by (simp add: cacheHandlerLookup_def afterForce_def Let_def)

lemma lookup_absent:
  "\<not> shouldForceRevalidate (workStore w) (workUnitStore w) \<Longrightarrow> handlerEntry call = None \<Longrightarrow>
   cacheHandlerLookup call w = cacheMiss call (afterGet call w)"
  by (simp add: cacheHandlerLookup_def afterGet_def Let_def)

lemma lookup_discarded:
  "\<not> shouldForceRevalidate (workStore w) (workUnitStore w) \<Longrightarrow> handlerEntry call = Some e \<Longrightarrow>
   discards call w e \<Longrightarrow>
   cacheHandlerLookup call w = cacheMiss call (afterGet call w)"
  by (simp add: cacheHandlerLookup_def afterGet_def discards_def Let_def)

lemma lookup_survivor:
  "\<not> shouldForceRevalidate (workStore w) (workUnitStore w) \<Longrightarrow> handlerEntry call = Some e \<Longrightarrow>
   \<not> discards call w e \<Longrightarrow>
   cacheHandlerLookup call w =
     (if inPrerender (workUnitStore w) \<and> (revalidate e = 0 \<or> expire e < DYNAMIC_EXPIRE)
      then (makeHangingPromise (workUnitStore w) dynamicUseCache,
            (afterGet call w)\<lparr>workUnitStore :=
               onCacheSignal endRead (onCacheSignal beginRead (workUnitStore w))\<rparr>)
      else if currentTime call > timestamp e + expire e * 1000 \<or>
              (isStaticGeneration (workStore w) \<and>
               currentTime call > timestamp e + revalidate e * 1000)
      then cacheMiss call (afterGet call w)
      else cacheHit call e (afterGet call w))"
  by (auto simp add: cacheHandlerLookup_def afterGet_def discards_def Let_def)


lemma prerenderResumeDataCacheSet_fields [simp]:
  "workStore (prerenderResumeDataCacheSet k p w) = workStore w"
  "handlerGetCalls (prerenderResumeDataCacheSet k p w) = handlerGetCalls w"
  "handlerSetCalls (prerenderResumeDataCacheSet k p w) = handlerSetCalls w"
  "generateCalls (prerenderResumeDataCacheSet k p w) = generateCalls w"
  "cancelledStreams (prerenderResumeDataCacheSet k p w) = cancelledStreams w"
  by (simp_all add: prerenderResumeDataCacheSet_def)

lemma saveCacheEntry_fields:
  "generateCalls (saveCacheEntry k p w) = generateCalls w"
  "handlerGetCalls (saveCacheEntry k p w) = handlerGetCalls w"
  "cancelledStreams (saveCacheEntry k p w) = cancelledStreams w"
  "handlerSetCalls (saveCacheEntry k p w) = handlerSetCalls w @ [(k, savedEntry p (workUnitStore w))]"
  "pendingRevalidateWrites (workStore (saveCacheEntry k p w)) =
     Some ((case pendingRevalidateWrites (workStore w) of None \<Rightarrow> [] | Some ps \<Rightarrow> ps) @
           [SetPromise k (savedEntry p (workUnitStore w))])"
  by (simp_all add: saveCacheEntry_def savedEntry_def Let_def split: option.splits)

lemma cacheMiss_generateCalls:
  "generateCalls (snd (cacheMiss call w)) =
     generateCalls w @ [map_option storeType (workUnitStore w)]"
  by (simp add: cacheMiss_def Let_def saveCacheEntry_fields
      split: sum.splits prod.splits GenerateCacheEntryResult.splits)

lemma cacheMiss_outcome:
  "fst (cacheMiss call w) =
     (case generateCacheEntry (workStore w) (workUnitStore w) (foreground call)
             (timeoutError call) of
        Inl err \<Rightarrow> Throws err
      | Inr (PrerenderDynamic sig reason, ws1, o1) \<Rightarrow> HangingPromise sig reason
      | Inr (Cached newStream p, ws1, o1) \<Rightarrow> ReturnStream newStream)"
  by (simp add: cacheMiss_def Let_def
      split: sum.splits prod.splits GenerateCacheEntryResult.splits)

lemma discards_valueStream [simp]:
  "discards call w (e\<lparr>valueStream := v\<rparr>) = discards call w e"
  by (simp add: discards_def shouldDiscardCacheEntry_def)

lemma afterGet_fields [simp]:
  "workStore (afterGet call w) = workStore w"
  "workUnitStore (afterGet call w) = onCacheSignal beginRead (workUnitStore w)"
  "generateCalls (afterGet call w) = generateCalls w"
  "handlerSetCalls (afterGet call w) = handlerSetCalls w"
  by (simp_all add: afterGet_def)

lemma afterGet_handlerEntry [simp]:
  "afterGet (call\<lparr>handlerEntry := x\<rparr>) w = afterGet call w"
  by (simp add: afterGet_def)

lemma discards_handlerEntry [simp]:
  "discards (call\<lparr>handlerEntry := x\<rparr>) w e = discards call w e"
  by (simp add: discards_def)

lemma cacheMiss_handlerEntry [simp]:
  "cacheMiss (call\<lparr>handlerEntry := x\<rparr>) w = cacheMiss call w"
  by (simp add: cacheMiss_def Let_def
      split: sum.splits prod.splits GenerateCacheEntryResult.splits)


text \<open>
  An entry with \<^verbatim>\<open>expire\<close> 200, created at 1000 ms and read at 701000 ms under a
  prerender store: it is past its expiry, and the call returns the hanging promise without
  generating a new entry.
\<close>

theorem expired_entry_prerender_not_regenerated:
  "handlerEntry (exampleCall (Some (exampleEntry (Source [''old''] Closed) 60 200 [])) 701000) =
     Some (exampleEntry (Source [''old''] Closed) 60 200 []) \<and>
   \<not> discards (exampleCall (Some (exampleEntry (Source [''old''] Closed) 60 200 [])) 701000)
       (exampleWorld (Some (exampleStore Prerender)))
       (exampleEntry (Source [''old''] Closed) 60 200 []) \<and>
   currentTime (exampleCall (Some (exampleEntry (Source [''old''] Closed) 60 200 [])) 701000) >
     timestamp (exampleEntry (Source [''old''] Closed) 60 200 []) +
     expire (exampleEntry (Source [''old''] Closed) 60 200 []) * 1000 \<and>
   fst (cacheHandlerLookup
          (exampleCall (Some (exampleEntry (Source [''old''] Closed) 60 200 [])) 701000)
          (exampleWorld (Some (exampleStore Prerender)))) =
     HangingPromise 7 dynamicUseCache \<and>
   generateCalls (snd (cacheHandlerLookup
          (exampleCall (Some (exampleEntry (Source [''old''] Closed) 60 200 [])) 701000)
          (exampleWorld (Some (exampleStore Prerender))))) = []"
  by (simp add: example_defs model_defs)


text \<open>
  Claim C3, amended. For an entry that \<^verbatim>\<open>cacheHandler.get\<close> returned and that survives
  the discard test: when the current time exceeds its time stamp plus \<^verbatim>\<open>expire\<close> seconds,
  or, in static generation only, its time stamp plus \<^verbatim>\<open>revalidate\<close> seconds, the entry
  is not served. Under a prerender store, when the entry has \<^verbatim>\<open>revalidate\<close> 0 or
  \<^verbatim>\<open>expire\<close> below \<^verbatim>\<open>DYNAMIC_EXPIRE\<close>, the call returns the hanging promise and neither
  generates nor saves anything. Otherwise the call takes the miss branch: it runs the
  generator once, under the enclosing work unit store. In both cases the outcome does not
  depend on the stream of the old entry.
\<close>

theorem expired_entry_never_served:
  assumes "handlerEntry call = Some e"
    and "\<not> shouldForceRevalidate (workStore w) (workUnitStore w)"
    and "\<not> discards call w e"
    and "currentTime call > timestamp e + expire e * 1000 \<or>
         (isStaticGeneration (workStore w) \<and>
          currentTime call > timestamp e + revalidate e * 1000)"
  shows "(if inPrerender (workUnitStore w) \<and> (revalidate e = 0 \<or> expire e < DYNAMIC_EXPIRE)
          then fst (cacheHandlerLookup call w) =
                 makeHangingPromise (workUnitStore w) dynamicUseCache \<and>
               generateCalls (snd (cacheHandlerLookup call w)) = generateCalls w \<and>
               handlerSetCalls (snd (cacheHandlerLookup call w)) = handlerSetCalls w
          else cacheHandlerLookup call w = cacheMiss call (afterGet call w) \<and>
               generateCalls (snd (cacheHandlerLookup call w)) =
                 generateCalls w @ [map_option storeType (workUnitStore w)] \<and>
               fst (cacheHandlerLookup call w) =
                 (case generateCacheEntry (workStore w)
                         (onCacheSignal beginRead (workUnitStore w)) (foreground call)
                         (timeoutError call) of
                    Inl err \<Rightarrow> Throws err
                  | Inr (PrerenderDynamic sig reason, ws1, o1) \<Rightarrow> HangingPromise sig reason
                  | Inr (Cached newStream p, ws1, o1) \<Rightarrow> ReturnStream newStream)) \<and>
         (\<forall>v. fst (cacheHandlerLookup (call\<lparr>handlerEntry := Some (e\<lparr>valueStream := v\<rparr>)\<rparr>) w) =
              fst (cacheHandlerLookup call w))"
proof -
  have same: "fst (cacheHandlerLookup (call\<lparr>handlerEntry := Some (e\<lparr>valueStream := v\<rparr>)\<rparr>) w) =
              fst (cacheHandlerLookup call w)" for v
  proof -
    have "handlerEntry (call\<lparr>handlerEntry := Some (e\<lparr>valueStream := v\<rparr>)\<rparr>) =
            Some (e\<lparr>valueStream := v\<rparr>)" by simp
    moreover have "\<not> discards (call\<lparr>handlerEntry := Some (e\<lparr>valueStream := v\<rparr>)\<rparr>) w
            (e\<lparr>valueStream := v\<rparr>)" using assms(3) by simp
    ultimately show ?thesis
      using assms(2,4)
      by (auto simp add: lookup_survivor [OF assms(2) assms(1) assms(3)] lookup_survivor)
  qed
  show ?thesis
    using assms(4) same
    by (auto simp add: lookup_survivor [OF assms(2) assms(1) assms(3)] cacheMiss_generateCalls
        cacheMiss_outcome)
qed



text \<open>
  An entry with \<^verbatim>\<open>expire\<close> 600, created at 1000 ms and read at 701000 ms under a request
  store: the call generates once and returns the new stream.
\<close>

theorem expired_entry_never_served_witness:
  "handlerEntry (exampleCall (Some (exampleEntry (Source [''old''] Closed) 60 600 [])) 701000) =
     Some (exampleEntry (Source [''old''] Closed) 60 600 []) \<and>
   \<not> shouldForceRevalidate (workStore (exampleWorld (Some (exampleStore Request))))
       (workUnitStore (exampleWorld (Some (exampleStore Request)))) \<and>
   \<not> discards (exampleCall (Some (exampleEntry (Source [''old''] Closed) 60 600 [])) 701000)
       (exampleWorld (Some (exampleStore Request)))
       (exampleEntry (Source [''old''] Closed) 60 600 []) \<and>
   currentTime (exampleCall (Some (exampleEntry (Source [''old''] Closed) 60 600 [])) 701000) >
     timestamp (exampleEntry (Source [''old''] Closed) 60 600 []) +
     expire (exampleEntry (Source [''old''] Closed) 60 600 []) * 1000 \<and>
   fst (cacheHandlerLookup
          (exampleCall (Some (exampleEntry (Source [''old''] Closed) 60 600 [])) 701000)
          (exampleWorld (Some (exampleStore Request)))) =
     ReturnStream (TeeA (Source [''fresh''] Closed)) \<and>
   generateCalls (snd (cacheHandlerLookup
          (exampleCall (Some (exampleEntry (Source [''old''] Closed) 60 600 [])) 701000)
          (exampleWorld (Some (exampleStore Request))))) = [Some Request]"
proof -
  let ?e = "exampleEntry (Source [''old''] Closed) 60 600 []"
  let ?c = "exampleCall (Some ?e) 701000"
  let ?w = "exampleWorld (Some (exampleStore Request))"
  have h1: "handlerEntry ?c = Some ?e" by (simp add: example_defs)
  have h2: "\<not> shouldForceRevalidate (workStore ?w) (workUnitStore ?w)"
    by (simp add: example_defs shouldForceRevalidate_def)
  have h3: "\<not> discards ?c ?w ?e" by (simp add: example_defs model_defs)
  have h4: "currentTime ?c > timestamp ?e + expire ?e * 1000 \<or>
            (isStaticGeneration (workStore ?w) \<and>
             currentTime ?c > timestamp ?e + revalidate ?e * 1000)"
    by (simp add: example_defs)
  show ?thesis
    using h1 h2 h3 expired_entry_never_served [OF h1 h2 h3 h4] by (simp add: example_defs model_defs)
qed

lemma propagate_simps [simp]:
  "inPrerender (propagateCacheLifeAndTags wus e) = inPrerender wus"
  "hasCacheSignal (propagateCacheLifeAndTags wus e) = hasCacheSignal wus"
  "getPrerenderResumeDataCache (propagateCacheLifeAndTags wus e) = getPrerenderResumeDataCache wus"
  "getRenderResumeDataCache (propagateCacheLifeAndTags wus e) = getRenderResumeDataCache wus"
  "map_option storeType (propagateCacheLifeAndTags wus e) = map_option storeType wus"
  "makeHangingPromise (propagateCacheLifeAndTags wus e) x = makeHangingPromise wus x"
  by (auto simp add: propagateCacheLifeAndTags_def inPrerender_def hasCacheSignal_def
      getPrerenderResumeDataCache_def getRenderResumeDataCache_def makeHangingPromise_def Let_def
      split: option.splits)

lemma hasCacheSignal_onCacheSignal [simp]:
  "hasCacheSignal (onCacheSignal f wus) = hasCacheSignal wus"
  "getRenderResumeDataCache (onCacheSignal f wus) = getRenderResumeDataCache wus"
  by (auto simp add: onCacheSignal_def hasCacheSignal_def getRenderResumeDataCache_def
      split: option.splits)




lemma savedEntry_simps [simp]:
  "savedEntry p (onCacheSignal f wus) = savedEntry p wus"
  "savedEntry p (propagateCacheLifeAndTags wus e) = savedEntry p wus"
  "savedEntry p (workUnitStore (prerenderResumeDataCacheSet k q w)) = savedEntry p (workUnitStore w)"
proof -
  show "savedEntry p (onCacheSignal f wus) = savedEntry p wus"
    by (simp add: savedEntry_def)
  show "savedEntry p (propagateCacheLifeAndTags wus e) = savedEntry p wus"
    by (simp add: savedEntry_def)
  show "savedEntry p (workUnitStore (prerenderResumeDataCacheSet k q w)) =
        savedEntry p (workUnitStore w)"
    by (cases "workUnitStore w")
       (auto simp add: savedEntry_def prerenderResumeDataCacheSet_def
          getPrerenderResumeDataCache_def split: option.splits)
qed


lemma servedStream_simps [simp]:
  "servedStream e (onCacheSignal f wus) = servedStream e wus"
  by (simp add: servedStream_def)















subsection \<open>The entry generator\<close>

lemma teeAndCollect_stream:
  "\<exists>p o1. teeAndCollect s ws outer inner t errs = (Cached (TeeA s) p, ws, o1)"
proof (cases "collectResult (TeeB s) ws outer inner t errs")
  case None
  then show ?thesis by (simp add: teeAndCollect_def tee_def)
next
  case (Some r)
  then show ?thesis by (cases r) (simp add: teeAndCollect_def tee_def)
qed

lemma generate_with_profile:
  assumes "hasDefaultCacheLife ws"
  shows "\<exists>inner. generateCacheEntry ws outer ex te =
           Inr (generateCacheEntryImpl ws outer inner ex te)"
proof -
  from assms obtain profiles d r x st where
    "cacheLifeProfiles ws = Some profiles" "profiles ''default'' = Some d"
    "profileRevalidate d = Some r" "profileExpire d = Some x" "profileStale d = Some st"
    by (auto simp add: hasDefaultCacheLife_def split: option.splits)
  then show ?thesis
    by (auto simp add: generateCacheEntry_def generateCacheEntryWithCacheContext_def Let_def)
qed

lemma generateCacheEntryImpl_dynamic:
  "storeType s = Prerender \<Longrightarrow> dynamicAccessAborted ex \<Longrightarrow> \<not> timeoutReached ex \<Longrightarrow>
   generateCacheEntryImpl ws (Some s) inner ex te =
     (PrerenderDynamic (renderSignal s) (abortReason ex), ws, onCacheSignal endRead (Some s))"
  by (simp add: generateCacheEntryImpl_def Let_def)

text \<open>
  Claim C6. When the generator runs under a prerender store and the dynamic access signal
  is aborted while the timeout is not reached, it returns no entry but the prerender-dynamic
  result with the hanging promise made from the render signal of the store, after one
  \<^verbatim>\<open>endRead\<close>; the miss branch of \<^verbatim>\<open>cache\<close> returns that promise, does not call
  \<^verbatim>\<open>cacheHandler.set\<close>, pushes no pending write and leaves both resume data caches as
  they were.
\<close>

theorem dynamic_access_never_saved:
  assumes "workUnitStore w = Some s"
    and "storeType s = Prerender"
    and "hasDefaultCacheLife (workStore w)"
    and "dynamicAccessAborted (foreground call)"
    and "\<not> timeoutReached (foreground call)"
  shows "generateCacheEntry (workStore w) (workUnitStore w) (foreground call) (timeoutError call) =
           Inr (PrerenderDynamic (renderSignal s) (abortReason (foreground call)),
                workStore w, onCacheSignal endRead (Some s)) \<and>
         fst (cacheMiss call w) =
           HangingPromise (renderSignal s) (abortReason (foreground call)) \<and>
         handlerSetCalls (snd (cacheMiss call w)) = handlerSetCalls w \<and>
         pendingRevalidateWrites (workStore (snd (cacheMiss call w))) =
           pendingRevalidateWrites (workStore w) \<and>
         getPrerenderResumeDataCache (workUnitStore (snd (cacheMiss call w))) =
           prerenderResumeDataCache s \<and>
         getRenderResumeDataCache (workUnitStore (snd (cacheMiss call w))) =
           renderResumeDataCache s"
proof -
  from generate_with_profile [OF assms(3)] obtain inner where
    "generateCacheEntry (workStore w) (Some s) (foreground call) (timeoutError call) =
       Inr (generateCacheEntryImpl (workStore w) (Some s) inner (foreground call)
              (timeoutError call))"
    by blast
  then have g: "generateCacheEntry (workStore w) (workUnitStore w) (foreground call)
                  (timeoutError call) =
           Inr (PrerenderDynamic (renderSignal s) (abortReason (foreground call)),
                workStore w, onCacheSignal endRead (Some s))"
    using assms(1) by (simp add: generateCacheEntryImpl_dynamic [OF assms(2) assms(4) assms(5)])
  have r: "getPrerenderResumeDataCache (onCacheSignal endRead (Some s)) = prerenderResumeDataCache s"
    "getRenderResumeDataCache (onCacheSignal endRead (Some s)) = renderResumeDataCache s"
    by (simp_all add: getPrerenderResumeDataCache_def getRenderResumeDataCache_def
        onCacheSignal_def)
  show ?thesis
    using g r by (simp add: cacheMiss_def Let_def)
qed

text \<open>
  A miss under a prerender store whose execution aborts the dynamic access signal after
  10 ms.
\<close>

theorem dynamic_access_never_saved_witness:
  "workUnitStore (exampleWorld (Some (exampleStore Prerender))) = Some (exampleStore Prerender) \<and>
   storeType (exampleStore Prerender) = Prerender \<and>
   hasDefaultCacheLife (workStore (exampleWorld (Some (exampleStore Prerender)))) \<and>
   dynamicAccessAborted
     (foreground ((exampleCall None 2000)\<lparr>foreground := exampleExecution\<lparr>dynamicAccessAborted := True\<rparr>\<rparr>)) \<and>
   \<not> timeoutReached
     (foreground ((exampleCall None 2000)\<lparr>foreground := exampleExecution\<lparr>dynamicAccessAborted := True\<rparr>\<rparr>)) \<and>
   fst (cacheMiss ((exampleCall None 2000)\<lparr>foreground := exampleExecution\<lparr>dynamicAccessAborted := True\<rparr>\<rparr>)
          (exampleWorld (Some (exampleStore Prerender)))) = HangingPromise 7 ''params'' \<and>
   handlerSetCalls
     (snd (cacheMiss ((exampleCall None 2000)\<lparr>foreground := exampleExecution\<lparr>dynamicAccessAborted := True\<rparr>\<rparr>)
          (exampleWorld (Some (exampleStore Prerender))))) = []"
proof -
  let ?c = "(exampleCall None 2000)\<lparr>foreground := exampleExecution\<lparr>dynamicAccessAborted := True\<rparr>\<rparr>"
  let ?s = "exampleStore Prerender"
  let ?w = "exampleWorld (Some ?s)"
  have h1: "workUnitStore ?w = Some ?s" by (simp add: example_defs)
  have h2: "storeType ?s = Prerender" by (simp add: example_defs)
  have h3: "hasDefaultCacheLife (workStore ?w)" by (simp add: example_defs hasDefaultCacheLife_def)
  have h4: "dynamicAccessAborted (foreground ?c)" by (simp add: example_defs)
  have h5: "\<not> timeoutReached (foreground ?c)"
    by (simp add: example_defs timeoutReached_def timeoutMs_def)
  have v: "renderSignal ?s = 7" "abortReason (foreground ?c) = ''params''" "handlerSetCalls ?w = []"
    by (simp_all add: example_defs)
  from dynamic_access_never_saved [OF h1 h2 h3 h4 h5]
  have "fst (cacheMiss ?c ?w) = HangingPromise (renderSignal ?s) (abortReason (foreground ?c))"
    "handlerSetCalls (snd (cacheMiss ?c ?w)) = handlerSetCalls ?w"
    by blast+
  then have "fst (cacheMiss ?c ?w) = HangingPromise 7 ''params''"
    "handlerSetCalls (snd (cacheMiss ?c ?w)) = []"
    by (simp_all only: v)
  with h1 h2 h3 h4 h5 show ?thesis by blast
qed

lemma generateCacheEntryImpl_timeout:
  "storeType outer = Prerender \<Longrightarrow> timeoutReached ex \<Longrightarrow>
   \<exists>p o1. generateCacheEntryImpl ws (Some outer) inner ex te =
      (Cached (TeeA (Source [] (Errored te))) p,
       ws\<lparr>invalidDynamicUsageError := Some te\<rparr>, o1)"
  using teeAndCollect_stream by (simp add: generateCacheEntryImpl_def Let_def)

lemma generateCacheEntryImpl_in_time:
  "storeType outer = Prerender \<Longrightarrow> \<not> timeoutReached ex \<Longrightarrow> \<not> dynamicAccessAborted ex \<Longrightarrow>
   \<exists>p o1. generateCacheEntryImpl ws (Some outer) inner ex te =
      (Cached (TeeA (Source (renderedChunks ex) Closed)) p, ws, o1)"
  using teeAndCollect_stream by (simp add: generateCacheEntryImpl_def Let_def)

lemma generateCacheEntryImpl_normal:
  "(case outerOpt of None \<Rightarrow> True | Some outer \<Rightarrow> storeType outer \<noteq> Prerender) \<Longrightarrow>
   \<exists>p o1. generateCacheEntryImpl ws outerOpt inner ex te =
      (Cached (TeeA (Source (renderedChunks ex) (renderEnding ex))) p, ws, o1)"
  using teeAndCollect_stream
  by (cases outerOpt) (simp_all add: generateCacheEntryImpl_def Let_def)

lemma generateCacheEntryImpl_no_timer:
  "(case outerOpt of None \<Rightarrow> True | Some outer \<Rightarrow> storeType outer \<noteq> Prerender) \<Longrightarrow>
   generateCacheEntryImpl ws outerOpt inner (ex\<lparr>settlesAfter := d, timerFirst := b\<rparr>) te =
   generateCacheEntryImpl ws outerOpt inner ex te"
  by (cases outerOpt) (simp_all add: generateCacheEntryImpl_def Let_def)

text \<open>
  Claim C7. Under a store of type prerender the generator gives the render 50000 ms: when
  the render never settles, or would settle later than that, the result is a stream that
  errors with the timeout error (and the work store records the error); when it settles
  earlier and no dynamic access aborted it, the result is the prelude. For every other
  outer store, and without one, there is no timer: the result is the stream of
  \<^verbatim>\<open>renderToReadableStream\<close>, however long the render takes. Time enters the model as
  the number of milliseconds after which the render settles.
\<close>

theorem prerender_timeout:
  "(storeType outer = Prerender \<longrightarrow>
    (settlesAfter ex = None \<or> (\<exists>d. settlesAfter ex = Some d \<and> 50000 < d)) \<longrightarrow>
      (\<exists>p o1. generateCacheEntryImpl ws (Some outer) inner ex te =
         (Cached (TeeA (Source [] (Errored te))) p,
          ws\<lparr>invalidDynamicUsageError := Some te\<rparr>, o1)) \<and>
      ending (TeeA (Source [] (Errored te))) = Errored te) \<and>
   (storeType outer = Prerender \<longrightarrow>
    (\<exists>d. settlesAfter ex = Some d \<and> d < 50000) \<longrightarrow> \<not> dynamicAccessAborted ex \<longrightarrow>
      (\<exists>p o1. generateCacheEntryImpl ws (Some outer) inner ex te =
         (Cached (TeeA (Source (renderedChunks ex) Closed)) p, ws, o1))) \<and>
   ((case outerOpt of None \<Rightarrow> True | Some outer \<Rightarrow> storeType outer \<noteq> Prerender) \<longrightarrow>
      (\<exists>p o1. generateCacheEntryImpl ws outerOpt inner ex te =
         (Cached (TeeA (Source (renderedChunks ex) (renderEnding ex))) p, ws, o1)) \<and>
      generateCacheEntryImpl ws outerOpt inner (ex\<lparr>settlesAfter := d, timerFirst := b\<rparr>) te =
      generateCacheEntryImpl ws outerOpt inner ex te)"
proof -
  have t1: "settlesAfter ex = None \<or> (\<exists>d. settlesAfter ex = Some d \<and> 50000 < d) \<Longrightarrow>
            timeoutReached ex"
    by (auto simp add: timeoutReached_def timeoutMs_def)
  have t2: "\<exists>d. settlesAfter ex = Some d \<and> d < 50000 \<Longrightarrow> \<not> timeoutReached ex"
    by (auto simp add: timeoutReached_def timeoutMs_def)
  have a: "storeType outer = Prerender \<longrightarrow>
    (settlesAfter ex = None \<or> (\<exists>d. settlesAfter ex = Some d \<and> 50000 < d)) \<longrightarrow>
      (\<exists>p o1. generateCacheEntryImpl ws (Some outer) inner ex te =
         (Cached (TeeA (Source [] (Errored te))) p,
          ws\<lparr>invalidDynamicUsageError := Some te\<rparr>, o1)) \<and>
      ending (TeeA (Source [] (Errored te))) = Errored te"
    using generateCacheEntryImpl_timeout t1 by simp
  have b: "storeType outer = Prerender \<longrightarrow>
    (\<exists>d. settlesAfter ex = Some d \<and> d < 50000) \<longrightarrow> \<not> dynamicAccessAborted ex \<longrightarrow>
      (\<exists>p o1. generateCacheEntryImpl ws (Some outer) inner ex te =
         (Cached (TeeA (Source (renderedChunks ex) Closed)) p, ws, o1))"
    using generateCacheEntryImpl_in_time t2 by blast
  have c: "(case outerOpt of None \<Rightarrow> True | Some outer \<Rightarrow> storeType outer \<noteq> Prerender) \<longrightarrow>
      (\<exists>p o1. generateCacheEntryImpl ws outerOpt inner ex te =
         (Cached (TeeA (Source (renderedChunks ex) (renderEnding ex))) p, ws, o1)) \<and>
      generateCacheEntryImpl ws outerOpt inner (ex\<lparr>settlesAfter := d, timerFirst := b\<rparr>) te =
      generateCacheEntryImpl ws outerOpt inner ex te"
    using generateCacheEntryImpl_normal generateCacheEntryImpl_no_timer by blast
  show ?thesis by (rule conjI [OF a conjI [OF b c]])
qed

text \<open>
  A render that never settles, under a prerender store and under a request store, and a
  render that settles after 10 ms under a prerender store.
\<close>

theorem prerender_timeout_witness:
  "storeType (exampleStore Prerender) = Prerender \<and>
   settlesAfter (exampleExecution\<lparr>settlesAfter := None, renderEnding := Unsettled\<rparr>) = None \<and>
   (\<exists>p o1. generateCacheEntryImpl exampleWorkStore (Some (exampleStore Prerender))
              (exampleStore Cache)
              (exampleExecution\<lparr>settlesAfter := None, renderEnding := Unsettled\<rparr>)
              UseCacheTimeoutError =
            (Cached (TeeA (Source [] (Errored UseCacheTimeoutError))) p,
             exampleWorkStore\<lparr>invalidDynamicUsageError := Some UseCacheTimeoutError\<rparr>, o1)) \<and>
   settlesAfter exampleExecution = Some 10 \<and> \<not> dynamicAccessAborted exampleExecution \<and>
   (\<exists>p o1. generateCacheEntryImpl exampleWorkStore (Some (exampleStore Prerender))
              (exampleStore Cache) exampleExecution UseCacheTimeoutError =
            (Cached (TeeA (Source [''fresh''] Closed)) p, exampleWorkStore, o1)) \<and>
   storeType (exampleStore Request) \<noteq> Prerender \<and>
   (\<exists>p o1. generateCacheEntryImpl exampleWorkStore (Some (exampleStore Request))
              (exampleStore Cache)
              (exampleExecution\<lparr>settlesAfter := None, renderEnding := Unsettled\<rparr>)
              UseCacheTimeoutError =
            (Cached (TeeA (Source [''fresh''] Unsettled)) p, exampleWorkStore, o1))"
proof -
  let ?never = "exampleExecution\<lparr>settlesAfter := None, renderEnding := Unsettled\<rparr>"
  have h1: "storeType (exampleStore Prerender) = Prerender" by (simp add: exampleStore_def)
  have h2: "settlesAfter ?never = None" by simp
  have h3: "settlesAfter exampleExecution = Some 10" "\<not> dynamicAccessAborted exampleExecution"
    by (simp_all add: exampleExecution_def)
  have h4: "storeType (exampleStore Request) \<noteq> Prerender" by (simp add: exampleStore_def)
  have c: "renderedChunks ?never = [''fresh'']" "renderEnding ?never = Unsettled"
    "renderedChunks exampleExecution = [''fresh'']"
    by (simp_all add: exampleExecution_def)
  from prerender_timeout
         [where outer = "exampleStore Prerender" and ex = ?never and ws = exampleWorkStore
            and inner = "exampleStore Cache" and te = UseCacheTimeoutError
            and outerOpt = "Some (exampleStore Request)"] h1 h2 h4
  have a: "\<exists>p o1. generateCacheEntryImpl exampleWorkStore (Some (exampleStore Prerender))
              (exampleStore Cache) ?never UseCacheTimeoutError =
            (Cached (TeeA (Source [] (Errored UseCacheTimeoutError))) p,
             exampleWorkStore\<lparr>invalidDynamicUsageError := Some UseCacheTimeoutError\<rparr>, o1)"
    and n: "\<exists>p o1. generateCacheEntryImpl exampleWorkStore (Some (exampleStore Request))
              (exampleStore Cache) ?never UseCacheTimeoutError =
            (Cached (TeeA (Source (renderedChunks ?never) (renderEnding ?never))) p,
             exampleWorkStore, o1)"
    by simp_all
  from prerender_timeout
         [where outer = "exampleStore Prerender" and ex = exampleExecution
            and ws = exampleWorkStore and inner = "exampleStore Cache"
            and te = UseCacheTimeoutError and outerOpt = None] h1 h3
  have b: "\<exists>p o1. generateCacheEntryImpl exampleWorkStore (Some (exampleStore Prerender))
              (exampleStore Cache) exampleExecution UseCacheTimeoutError =
            (Cached (TeeA (Source (renderedChunks exampleExecution) Closed)) p,
             exampleWorkStore, o1)"
    by simp
  show ?thesis
    using h1 h2 h3 h4 a b n unfolding c by blast
qed


subsection \<open>Cloning\<close>

lemma TeeA_neq: "TeeA s \<noteq> s"
  by (induction s) auto

text \<open>
  Claim C10. \<^verbatim>\<open>cloneCacheEntry\<close> returns the entry it was given, the same object, and a
  new object. Both have the time stamp, \<^verbatim>\<open>revalidate\<close>, \<^verbatim>\<open>expire\<close> and \<^verbatim>\<open>stale\<close> of
  the original and refer to the same tags array; their streams are the two branches of
  the tee of the original stream. The object passed in is changed in place: its stream is
  now the first branch. No other object changes.
\<close>

theorem cloneCacheEntry_in_place:
  assumes "a < length h"
  shows "\<exists>h'. cloneCacheEntry h a = Some (h', a, length h) \<and>
           length h' = length h + 1 \<and>
           h' ! a = (h ! a)\<lparr>valueStream := TeeA (valueStream (h ! a))\<rparr> \<and>
           h' ! length h =
             \<lparr>valueStream = TeeB (valueStream (h ! a)), timestamp = timestamp (h ! a),
              revalidate = revalidate (h ! a), expire = expire (h ! a),
              stale = stale (h ! a), tags = tags (h ! a)\<rparr> \<and>
           (valueStream (h' ! a), valueStream (h' ! length h)) = tee (valueStream (h ! a)) \<and>
           h' ! a \<noteq> h ! a \<and>
           a \<noteq> length h \<and>
           (\<forall>b < length h. b \<noteq> a \<longrightarrow> h' ! b = h ! b)"
proof -
  let ?e1 = "(h ! a)\<lparr>valueStream := TeeA (valueStream (h ! a))\<rparr>"
  let ?e2 = "\<lparr>valueStream = TeeB (valueStream (h ! a)), timestamp = timestamp (h ! a),
              revalidate = revalidate (h ! a), expire = expire (h ! a),
              stale = stale (h ! a), tags = tags (h ! a)\<rparr>"
  let ?h' = "h[a := ?e1] @ [?e2]"
  have c: "cloneCacheEntry h a = Some (?h', a, length h)"
    using assms by (simp add: cloneCacheEntry_def cloneCacheEntryFields_def tee_def Let_def)
  have l: "length ?h' = length h + 1" by simp
  have n1: "?h' ! a = ?e1" using assms by (simp add: nth_append)
  have n2: "?h' ! length h = ?e2" by (simp add: nth_append)
  have ne: "?e1 \<noteq> h ! a"
  proof
    assume "?e1 = h ! a"
    then have "valueStream ?e1 = valueStream (h ! a)" by simp
    then show False using TeeA_neq by simp
  qed
  have others: "\<forall>b < length h. b \<noteq> a \<longrightarrow> ?h' ! b = h ! b"
    by (simp add: nth_append)
  have t: "(valueStream (?h' ! a), valueStream (?h' ! length h)) = tee (valueStream (h ! a))"
    unfolding n1 n2 by (simp add: tee_def)
  show ?thesis
    using c l n1 n2 t ne others assms by (intro exI [of _ ?h']) simp
qed


text \<open>A heap with one entry whose tags array lives at address 5.\<close>

theorem cloneCacheEntry_in_place_witness:
  "(0::nat) < length [\<lparr>valueStream = Source [''x''] Closed, timestamp = 1000, revalidate = 60,
                       expire = 600, stale = 30, tags = (5::nat)\<rparr>] \<and>
   cloneCacheEntry [\<lparr>valueStream = Source [''x''] Closed, timestamp = 1000, revalidate = 60,
                     expire = 600, stale = 30, tags = (5::nat)\<rparr>] 0 =
     Some ([\<lparr>valueStream = TeeA (Source [''x''] Closed), timestamp = 1000, revalidate = 60,
             expire = 600, stale = 30, tags = 5\<rparr>,
            \<lparr>valueStream = TeeB (Source [''x''] Closed), timestamp = 1000, revalidate = 60,
             expire = 600, stale = 30, tags = 5\<rparr>], 0, 1)"
proof -
  let ?h = "[\<lparr>valueStream = Source [''x''] Closed, timestamp = 1000, revalidate = 60,
              expire = 600, stale = 30, tags = (5::nat)\<rparr>]"
  have h: "(0::nat) < length ?h" by simp
  from cloneCacheEntry_in_place [OF h] obtain h' where
    c: "cloneCacheEntry ?h 0 = Some (h', 0, length ?h)" and
    l: "length h' = length ?h + 1" and
    a: "h' ! 0 = (?h ! 0)\<lparr>valueStream := TeeA (valueStream (?h ! 0))\<rparr>" and
    b: "h' ! length ?h =
             \<lparr>valueStream = TeeB (valueStream (?h ! 0)), timestamp = timestamp (?h ! 0),
              revalidate = revalidate (?h ! 0), expire = expire (?h ! 0),
              stale = stale (?h ! 0), tags = tags (?h ! 0)\<rparr>"
    by blast
  from l obtain x y where xy: "h' = [x, y]"
    by (cases h'; simp) (metis length_0_conv length_Suc_conv)
  from a b xy have "h' = [\<lparr>valueStream = TeeA (Source [''x''] Closed), timestamp = 1000,
             revalidate = 60, expire = 600, stale = 30, tags = 5\<rparr>,
            \<lparr>valueStream = TeeB (Source [''x''] Closed), timestamp = 1000, revalidate = 60,
             expire = 600, stale = 30, tags = 5\<rparr>]"
    by simp
  with c h show ?thesis by simp
qed


subsection \<open>Read accounting\<close>

text \<open>The two counts of a call in terms of the counters of the store.\<close>

lemma reads_counts:
  "readsBegun r = fst (signalCounts (workUnitStore (snd r)))"
  "readsEnded r = snd (signalCounts (workUnitStore (snd r))) +
     (case fst r of ReturnStream s \<Rightarrow> endReadsOnDrain s | _ \<Rightarrow> 0)"
  by (auto simp add: readsBegun_def readsEnded_def signalCounts_def split: option.splits)

lemma counts_begin:
  "hasCacheSignal wus \<Longrightarrow>
   signalCounts (onCacheSignal beginRead wus) =
     (fst (signalCounts wus) + 1, snd (signalCounts wus))"
  by (auto simp add: hasCacheSignal_def onCacheSignal_def signalCounts_def beginRead_def
      split: option.splits)

lemma counts_end:
  "hasCacheSignal wus \<Longrightarrow>
   signalCounts (onCacheSignal endRead wus) =
     (fst (signalCounts wus), snd (signalCounts wus) + 1)"
  by (auto simp add: hasCacheSignal_def onCacheSignal_def signalCounts_def endRead_def
      split: option.splits)

lemma counts_propagate [simp]:
  "signalCounts (propagateCacheLifeAndTags wus e) = signalCounts wus"
  by (auto simp add: propagateCacheLifeAndTags_def signalCounts_def Let_def split: option.splits)

lemma counts_rdc_set [simp]:
  "signalCounts (workUnitStore (prerenderResumeDataCacheSet k p w)) =
     signalCounts (workUnitStore w)"
  "hasCacheSignal (workUnitStore (prerenderResumeDataCacheSet k p w)) =
     hasCacheSignal (workUnitStore w)"
  by (auto simp add: prerenderResumeDataCacheSet_def signalCounts_def hasCacheSignal_def
      split: option.splits)

lemma saveCacheEntry_store [simp]:
  "signalCounts (workUnitStore (saveCacheEntry k p w)) = signalCounts (workUnitStore w)"
  by (simp add: saveCacheEntry_def Let_def split: option.splits)

lemma teeAndCollect_settled:
  "ending s \<noteq> Unsettled \<Longrightarrow>
   \<exists>e. teeAndCollect s ws outer inner t errs =
     (Cached (TeeA s) (Some e), ws,
      onCacheSignal endRead (propagateCacheLifeAndTags outer e))"
  by (cases "ending s") (simp_all add: teeAndCollect_def tee_def collectResult_def Let_def)

lemma generateCacheEntryImpl_counts:
  assumes "hasCacheSignal outer"
    and "generateCacheEntryImpl ws outer inner ex te = (res, ws1, outer1)"
  shows "signalCounts outer1 = (fst (signalCounts outer), snd (signalCounts outer) + 1) \<and>
         (\<forall>s p. res = Cached s p \<longrightarrow> endReadsOnDrain s = 0)"
proof -
  from assms(1) obtain o0 where o: "outer = Some o0" "storeType o0 = Prerender"
    by (auto simp add: hasCacheSignal_def split: option.splits)
  have e: "signalCounts (onCacheSignal endRead (propagateCacheLifeAndTags outer x)) =
           (fst (signalCounts outer), snd (signalCounts outer) + 1)" for x
    using counts_end [of "propagateCacheLifeAndTags outer x"] assms(1) by simp
  show ?thesis
  proof (cases "timeoutReached ex")
    case True
    from teeAndCollect_settled [of "Source [] (Errored te)"
           "ws\<lparr>invalidDynamicUsageError := Some te\<rparr>" outer "bodyEffect ex inner"
           "startTime ex" "handledErrors ex"]
    obtain x where "teeAndCollect (Source [] (Errored te))
           (ws\<lparr>invalidDynamicUsageError := Some te\<rparr>) outer (bodyEffect ex inner)
           (startTime ex) (handledErrors ex) =
        (Cached (TeeA (Source [] (Errored te))) (Some x),
         ws\<lparr>invalidDynamicUsageError := Some te\<rparr>,
         onCacheSignal endRead (propagateCacheLifeAndTags outer x))"
      by auto
    with True o assms(2) e [of x] show ?thesis
      by (auto simp add: generateCacheEntryImpl_def Let_def)
  next
    case False
    note nt = False
    show ?thesis
    proof (cases "dynamicAccessAborted ex")
      case True
      with nt o assms(2) counts_end [OF assms(1)] show ?thesis
        by (auto simp add: generateCacheEntryImpl_def Let_def)
    next
      case False
      from teeAndCollect_settled [of "Source (renderedChunks ex) Closed" ws outer
             "bodyEffect ex inner" "startTime ex" "handledErrors ex"]
      obtain x where "teeAndCollect (Source (renderedChunks ex) Closed) ws outer
             (bodyEffect ex inner) (startTime ex) (handledErrors ex) =
          (Cached (TeeA (Source (renderedChunks ex) Closed)) (Some x), ws,
           onCacheSignal endRead (propagateCacheLifeAndTags outer x))"
        by auto
      with False nt o assms(2) e [of x] show ?thesis
        by (auto simp add: generateCacheEntryImpl_def Let_def)
    qed
  qed
qed

lemma generateCacheEntry_counts:
  assumes "hasCacheSignal outer"
    and "generateCacheEntry ws outer ex te = Inr (res, ws1, outer1)"
  shows "signalCounts outer1 = (fst (signalCounts outer), snd (signalCounts outer) + 1) \<and>
         (\<forall>s p. res = Cached s p \<longrightarrow> endReadsOnDrain s = 0)"
proof -
  from assms(2) obtain inner where
    "generateCacheEntryImpl ws outer inner ex te = (res, ws1, outer1)"
    by (auto simp add: generateCacheEntry_def generateCacheEntryWithCacheContext_def Let_def
        split: option.splits)
  from generateCacheEntryImpl_counts [OF assms(1) this] show ?thesis .
qed


lemma cacheMiss_balanced:
  assumes "hasCacheSignal (workUnitStore w)"
    and "\<forall>err. fst (cacheMiss call w) \<noteq> Throws err"
  shows "readsBegun (cacheMiss call w) = fst (signalCounts (workUnitStore w)) \<and>
         readsEnded (cacheMiss call w) = snd (signalCounts (workUnitStore w)) + 1"
proof (cases "generateCacheEntry (workStore w) (workUnitStore w) (foreground call)
                (timeoutError call)")
  case (Inl err)
  with assms(2) show ?thesis by (simp add: cacheMiss_def Let_def)
next
  case (Inr r)
  obtain res ws1 outer1 where r: "r = (res, ws1, outer1)" by (cases r)
  from generateCacheEntry_counts [OF assms(1) Inr [unfolded r]]
  have c: "signalCounts outer1 =
             (fst (signalCounts (workUnitStore w)), snd (signalCounts (workUnitStore w)) + 1)"
    and d: "\<forall>s p. res = Cached s p \<longrightarrow> endReadsOnDrain s = 0"
    by simp_all
  show ?thesis
  proof (cases res)
    case (Cached s p)
    with d have "endReadsOnDrain s = 0" by simp
    with Inr r Cached c show ?thesis
      by (simp add: cacheMiss_def Let_def reads_counts)
  next
    case (PrerenderDynamic sig reason)
    with Inr r c show ?thesis
      by (simp add: cacheMiss_def Let_def reads_counts)
  qed
qed

lemma cacheHit_balanced:
  assumes "hasCacheSignal (workUnitStore w)"
    and "\<forall>err. fst (cacheHit call e w) \<noteq> Throws err"
    and "wellBehaved e"
  shows "readsBegun (cacheHit call e w) = fst (signalCounts (workUnitStore w)) \<and>
         readsEnded (cacheHit call e w) = snd (signalCounts (workUnitStore w)) + 1"
proof -
  let ?w1 = "w\<lparr>workUnitStore := propagateCacheLifeAndTags (workUnitStore w) e\<rparr>"
  obtain s w2 where sw:
    "(case getPrerenderResumeDataCache (workUnitStore ?w1) of
               Some c \<Rightarrow>
                 let (entryLeft, entryRight) = cloneCacheEntryFields e
                 in ((if hasCacheSignal (workUnitStore ?w1)
                      then createTrackedReadableStream (valueStream entryLeft)
                      else valueStream entryLeft),
                     prerenderResumeDataCacheSet (serializedCacheKey call) (Some entryRight) ?w1)
             | None \<Rightarrow>
                 (valueStream e,
                  ?w1\<lparr>workUnitStore := onCacheSignal endRead (workUnitStore ?w1)\<rparr>)) = (s, w2)"
    by (cases "(case getPrerenderResumeDataCache (workUnitStore ?w1) of
               Some c \<Rightarrow>
                 let (entryLeft, entryRight) = cloneCacheEntryFields e
                 in ((if hasCacheSignal (workUnitStore ?w1)
                      then createTrackedReadableStream (valueStream entryLeft)
                      else valueStream entryLeft),
                     prerenderResumeDataCacheSet (serializedCacheKey call) (Some entryRight) ?w1)
             | None \<Rightarrow>
                 (valueStream e,
                  ?w1\<lparr>workUnitStore := onCacheSignal endRead (workUnitStore ?w1)\<rparr>))")
  have bal: "snd (signalCounts (workUnitStore w2)) + endReadsOnDrain s =
               snd (signalCounts (workUnitStore w)) + 1 \<and>
             fst (signalCounts (workUnitStore w2)) = fst (signalCounts (workUnitStore w))"
  proof (cases "getPrerenderResumeDataCache (workUnitStore w)")
    case None
    with sw have "s = valueStream e"
      "w2 = ?w1\<lparr>workUnitStore := onCacheSignal endRead (workUnitStore ?w1)\<rparr>"
      by simp_all
    then show ?thesis
      using assms(1,3) counts_end [of "propagateCacheLifeAndTags (workUnitStore w) e"]
      by (simp add: wellBehaved_def)
  next
    case (Some c)
    with sw assms(1) have "s = Tracked (TeeA (valueStream e))"
      "w2 = prerenderResumeDataCacheSet (serializedCacheKey call)
              (Some (snd (cloneCacheEntryFields e))) ?w1"
      by (simp_all add: cloneCacheEntryFields_def tee_def createTrackedReadableStream_def
          Let_def split_def)
    then show ?thesis
      using assms(3) by (simp add: wellBehaved_def)
  qed
  show ?thesis
  proof (cases "currentTime call > timestamp e + revalidate e * 1000")
    case False
    with sw bal show ?thesis
      by (simp add: cacheHit_def Let_def reads_counts)
  next
    case True
    show ?thesis
    proof (cases "generateCacheEntry (workStore w2) None (background call) (timeoutError call)")
      case (Inl err)
      with True sw assms(2) show ?thesis
        by (simp add: cacheHit_def Let_def)
    next
      case (Inr r)
      obtain res ws1 outer1 where r: "r = (res, ws1, outer1)" by (cases r)
      show ?thesis
      proof (cases res)
        case (Cached ignored p)
        with True sw Inr r bal show ?thesis
          by (simp add: cacheHit_def Let_def reads_counts)
      next
        case (PrerenderDynamic sig reason)
        with True sw Inr r bal show ?thesis
          by (simp add: cacheHit_def Let_def reads_counts)
      qed
    qed
  qed
qed


lemma cache_resume_pending:
  assumes ne: "\<not> (inPrerender (workUnitStore w) \<and> \<not> isPageOrLayout call \<and> encodeAborted call)"
    and rc: "getRenderResumeDataCache (workUnitStore w) = Some c"
    and f: "c (serializedCacheKey call) = Some None"
  shows "cache call w =
           (Suspended, w\<lparr>workUnitStore := onCacheSignal beginRead (workUnitStore w)\<rparr>)"
  by (simp add: cache_def Let_def ne rc f)

lemma renderResumeDataCache_update_simps [simp]:
  "hasCacheSignal (map_option (\<lambda>s. s\<lparr>renderResumeDataCache := g s\<rparr>) wus) = hasCacheSignal wus"
  "signalCounts (map_option (\<lambda>s. s\<lparr>renderResumeDataCache := g s\<rparr>) wus) = signalCounts wus"
  by (cases wus; simp add: hasCacheSignal_def signalCounts_def)+

lemma cache_resume_hit:
  assumes ne: "\<not> (inPrerender (workUnitStore w) \<and> \<not> isPageOrLayout call \<and> encodeAborted call)"
    and rc: "getRenderResumeDataCache (workUnitStore w) = Some c"
    and f: "c (serializedCacheKey call) = Some (Some e)"
  shows "cache call w =
     (if inPrerender (workUnitStore w) \<and> (revalidate e = 0 \<or> expire e < DYNAMIC_EXPIRE)
      then (makeHangingPromise (workUnitStore w) dynamicUseCache,
            w\<lparr>workUnitStore :=
                onCacheSignal endRead
                  (propagateCacheLifeAndTags (onCacheSignal beginRead (workUnitStore w)) e)\<rparr>)
      else (ReturnStream
              (if hasCacheSignal (workUnitStore w)
               then Tracked (TeeA (valueStream e)) else TeeA (valueStream e)),
            w\<lparr>workUnitStore :=
                map_option
                  (\<lambda>s. s\<lparr>renderResumeDataCache :=
                           map_option
                             (\<lambda>m. m(serializedCacheKey call \<mapsto>
                                      Some (e\<lparr>valueStream := TeeB (valueStream e)\<rparr>)))
                             (renderResumeDataCache s)\<rparr>)
                  (propagateCacheLifeAndTags (onCacheSignal beginRead (workUnitStore w)) e)\<rparr>))"
proof (cases "inPrerender (workUnitStore w) \<and> (revalidate e = 0 \<or> expire e < DYNAMIC_EXPIRE)")
  case True
  with ne have ne': "\<not> (\<not> isPageOrLayout call \<and> encodeAborted call)" by simp
  show ?thesis
    by (simp add: cache_def Let_def tee_def createTrackedReadableStream_def ne' rc f True)
next
  case False
  show ?thesis
    by (simp add: cache_def Let_def tee_def createTrackedReadableStream_def ne rc f False)
qed

lemma cacheHandlerLookup_balanced:
  assumes sig: "hasCacheSignal (workUnitStore w)"
    and nothrow: "\<forall>err. fst (cacheHandlerLookup call w) \<noteq> Throws err"
    and wb: "\<forall>e. handlerEntry call = Some e \<longrightarrow> wellBehaved e"
  shows "readsBegun (cacheHandlerLookup call w) = fst (signalCounts (workUnitStore w)) + 1 \<and>
         readsEnded (cacheHandlerLookup call w) = snd (signalCounts (workUnitStore w)) + 1"
proof (cases "shouldForceRevalidate (workStore w) (workUnitStore w)")
  case True
  have l: "cacheHandlerLookup call w = cacheMiss call (afterForce w)"
    using True by (rule lookup_forced)
  show ?thesis
    using cacheMiss_balanced [of "afterForce w" call] sig nothrow counts_begin [OF sig]
    by (simp add: l afterForce_def)
next
  case False
  note nf = False
  have miss: "cacheHandlerLookup call w = cacheMiss call (afterGet call w) \<Longrightarrow> ?thesis"
    using cacheMiss_balanced [of "afterGet call w" call] sig nothrow counts_begin [OF sig]
    by simp
  show ?thesis
  proof (cases "handlerEntry call")
    case None
    show ?thesis by (rule miss) (rule lookup_absent [OF nf None])
  next
    case (Some e)
    show ?thesis
    proof (cases "discards call w e")
      case True
      show ?thesis by (rule miss) (rule lookup_discarded [OF nf Some True])
    next
      case False
      note l = lookup_survivor [OF nf Some False]
      show ?thesis
      proof (cases "inPrerender (workUnitStore w) \<and>
                    (revalidate e = 0 \<or> expire e < DYNAMIC_EXPIRE)")
        case True
        then show ?thesis
          using sig counts_end [of "onCacheSignal beginRead (workUnitStore w)"]
            counts_begin [of "workUnitStore w"]
          by (simp add: l reads_counts makeHangingPromise_def)
      next
        case False
        note ng = False
        show ?thesis
        proof (cases "currentTime call > timestamp e + expire e * 1000 \<or>
                      (isStaticGeneration (workStore w) \<and>
                       currentTime call > timestamp e + revalidate e * 1000)")
          case True
          show ?thesis by (rule miss) (simp add: l ng True)
        next
          case False
          have h: "cacheHandlerLookup call w = cacheHit call e (afterGet call w)"
            by (simp add: l ng False)
          show ?thesis
            using cacheHit_balanced [of "afterGet call w" call e] sig nothrow wb Some
              counts_begin [OF sig]
            by (simp add: h)
        qed
      qed
    qed
  qed
qed

text \<open>
  Where the accounting does balance: a call under a prerender store with a cache signal
  that neither throws nor waits for ever, and whose entries have streams that close, makes
  as many \<^verbatim>\<open>endRead\<close> as \<^verbatim>\<open>beginRead\<close> calls once the returned stream is read to
  its end.
\<close>

lemma cache_balanced:
  assumes sig: "hasCacheSignal (workUnitStore w)"
    and nothrow: "\<forall>err. fst (cache call w) \<noteq> Throws err"
    and nosusp: "fst (cache call w) \<noteq> Suspended"
    and wb: "\<forall>e. handlerEntry call = Some e \<longrightarrow> wellBehaved e"
    and wr: "\<forall>c e. getRenderResumeDataCache (workUnitStore w) = Some c \<longrightarrow>
               c (serializedCacheKey call) = Some (Some e) \<longrightarrow> wellBehaved e"
  shows "readsBegun (cache call w) + snd (signalCounts (workUnitStore w)) =
         readsEnded (cache call w) + fst (signalCounts (workUnitStore w))"
proof (cases "inPrerender (workUnitStore w) \<and> \<not> isPageOrLayout call \<and> encodeAborted call")
  case True
  then show ?thesis by (simp add: cache_def reads_counts makeHangingPromise_def)
next
  case False
  note ne = False
  show ?thesis
  proof (cases "getRenderResumeDataCache (workUnitStore w)")
    case None
    have l: "cache call w = cacheHandlerLookup call w"
      by (rule cache_without_resume_cache [OF ne None])
    show ?thesis
      using cacheHandlerLookup_balanced [OF sig _ wb] nothrow by (simp add: l)
  next
    case (Some c)
    note rc = Some
    let ?b = "onCacheSignal beginRead (workUnitStore w)"
    have cb: "signalCounts ?b =
                (fst (signalCounts (workUnitStore w)) + 1, snd (signalCounts (workUnitStore w)))"
      using sig by (rule counts_begin)
    have ce: "signalCounts (onCacheSignal endRead ?b) =
                (fst (signalCounts (workUnitStore w)) + 1,
                 snd (signalCounts (workUnitStore w)) + 1)"
      using counts_end [of ?b] sig cb by simp
    show ?thesis
    proof (cases "c (serializedCacheKey call)")
      case None
      show ?thesis
      proof (cases "case workUnitStore w of
                      None \<Rightarrow> False
                    | Some s \<Rightarrow> storeType s = Prerender \<and> allowEmptyStaticShell s")
        case True
        then have "case onCacheSignal endRead ?b of
                      None \<Rightarrow> False
                    | Some s \<Rightarrow> storeType s = Prerender \<and> allowEmptyStaticShell s"
          by (auto simp add: onCacheSignal_def split: option.splits)
        then show ?thesis
          using ne rc None ce
          by (simp add: cache_def Let_def reads_counts makeHangingPromise_def)
      next
        case False
        let ?w2 = "w\<lparr>workUnitStore := onCacheSignal endRead ?b\<rparr>"
        have l: "cache call w = cacheHandlerLookup call ?w2"
          by (rule cache_resume_miss [OF ne rc None False])
        have s2: "hasCacheSignal (workUnitStore ?w2)" using sig by simp
        show ?thesis
          using cacheHandlerLookup_balanced [OF s2 _ wb] nothrow ce by (simp add: l)
      qed
    next
      case (Some pending)
      note found = Some
      show ?thesis
      proof (cases pending)
        case None
        with nosusp cache_resume_pending [OF ne rc] found show ?thesis by simp
      next
        case (Some e)
        with found have f: "c (serializedCacheKey call) = Some (Some e)" by simp
        with wr rc have w: "wellBehaved e" by simp
        note h = cache_resume_hit [OF ne rc f]
        show ?thesis
        proof (cases "inPrerender (workUnitStore w) \<and>
                      (revalidate e = 0 \<or> expire e < DYNAMIC_EXPIRE)")
          case True
          then show ?thesis
            using counts_end [of "propagateCacheLifeAndTags ?b e"] sig cb
            by (simp add: h reads_counts makeHangingPromise_def)
        next
          case False
          show ?thesis
            using sig cb w
            by (simp add: h reads_counts wellBehaved_def False)
        qed
      qed
    qed
  qed
qed

text \<open>
  Claim C9. A call under a prerender store with a cache signal finds an entry in the
  render resume data cache whose stream delivers one chunk and then errors (the shape
  \<^verbatim>\<open>collectResult\<close> gives to the entry of an execution that failed). The call counts
  one \<^verbatim>\<open>beginRead\<close> and returns the tracked stream; reading that stream to its end makes
  no \<^verbatim>\<open>endRead\<close>, since \<^verbatim>\<open>pull\<close> calls it in the \<^verbatim>\<open>done\<close> branch only. With an entry
  whose stream closes the same call is balanced.
\<close>

theorem tracked_stream_error_unbalanced:
  "fst (cache (exampleCall None 2000)
          (exampleWorld (Some ((exampleStore Prerender)
             \<lparr>renderResumeDataCache :=
                Some (Map.empty ([107] \<mapsto> Some (exampleEntry (Source [''partial''] (Errored (ThrownValue ''boom'')))
                                        900 3600 [])))\<rparr>)))) =
     ReturnStream (Tracked (TeeA (Source [''partial''] (Errored (ThrownValue ''boom''))))) \<and>
   readsBegun (cache (exampleCall None 2000)
          (exampleWorld (Some ((exampleStore Prerender)
             \<lparr>renderResumeDataCache :=
                Some (Map.empty ([107] \<mapsto> Some (exampleEntry (Source [''partial''] (Errored (ThrownValue ''boom'')))
                                        900 3600 [])))\<rparr>)))) = 1 \<and>
   readsEnded (cache (exampleCall None 2000)
          (exampleWorld (Some ((exampleStore Prerender)
             \<lparr>renderResumeDataCache :=
                Some (Map.empty ([107] \<mapsto> Some (exampleEntry (Source [''partial''] (Errored (ThrownValue ''boom'')))
                                        900 3600 [])))\<rparr>)))) = 0 \<and>
   readsBegun (cache (exampleCall None 2000)
          (exampleWorld (Some ((exampleStore Prerender)
             \<lparr>renderResumeDataCache :=
                Some (Map.empty ([107] \<mapsto> Some (exampleEntry (Source [''whole''] Closed) 900 3600 [])))\<rparr>)))) = 1 \<and>
   readsEnded (cache (exampleCall None 2000)
          (exampleWorld (Some ((exampleStore Prerender)
             \<lparr>renderResumeDataCache :=
                Some (Map.empty ([107] \<mapsto> Some (exampleEntry (Source [''whole''] Closed) 900 3600 [])))\<rparr>)))) = 1"
  by (simp add: example_defs model_defs readsBegun_def readsEnded_def)

end
